theory Spec2Isabelle
  imports Main "HOL-Library.Word"
begin

unbundle bit_operations_syntax

section \<open>Data model\<close>

text \<open>
  The fixed-width integers of the firmware are words: \<open>uint8_t\<close> is \<open>8 word\<close>,
  \<open>uint16_t\<close> is \<open>16 word\<close>, \<open>uint32_t\<close> is \<open>32 word\<close>. Arithmetic that the C++
  compiler carries out in \<open>int\<close> after integer promotion is written at 32 bits.
\<close>

type_synonym uint8_t = "8 word"
type_synonym uint16_t = "16 word"
type_synonym uint32_t = "32 word"
type_synonym uint64_t = "64 word"

subsection \<open>MidiFileParser.h\<close>

definition MIDI_NOTE_OFF :: uint8_t where "MIDI_NOTE_OFF = 0x80"
definition MIDI_NOTE_ON :: uint8_t where "MIDI_NOTE_ON = 0x90"
definition MIDI_POLY_AFTERTOUCH :: uint8_t where "MIDI_POLY_AFTERTOUCH = 0xA0"
definition MIDI_CONTROL_CHANGE :: uint8_t where "MIDI_CONTROL_CHANGE = 0xB0"
definition MIDI_PROGRAM_CHANGE :: uint8_t where "MIDI_PROGRAM_CHANGE = 0xC0"
definition MIDI_CHANNEL_AFTERTOUCH :: uint8_t where "MIDI_CHANNEL_AFTERTOUCH = 0xD0"
definition MIDI_PITCH_BEND :: uint8_t where "MIDI_PITCH_BEND = 0xE0"
definition MIDI_SYSEX :: uint8_t where "MIDI_SYSEX = 0xF0"
definition MIDI_META_EVENT :: uint8_t where "MIDI_META_EVENT = 0xFF"

definition META_TRACK_NAME :: uint8_t where "META_TRACK_NAME = 0x03"
definition META_END_OF_TRACK :: uint8_t where "META_END_OF_TRACK = 0x2F"
definition META_TEMPO :: uint8_t where "META_TEMPO = 0x51"
definition META_TIME_SIGNATURE :: uint8_t where "META_TIME_SIGNATURE = 0x58"

definition MAX_TRACKS :: nat where "MAX_TRACKS = 16"
definition TRACK_BUFFER_SIZE :: nat where "TRACK_BUFFER_SIZE = 512"

lemmas midi_consts =
  MIDI_NOTE_OFF_def MIDI_NOTE_ON_def MIDI_POLY_AFTERTOUCH_def MIDI_CONTROL_CHANGE_def
  MIDI_PROGRAM_CHANGE_def MIDI_CHANNEL_AFTERTOUCH_def MIDI_PITCH_BEND_def MIDI_SYSEX_def
  MIDI_META_EVENT_def META_TRACK_NAME_def META_END_OF_TRACK_def META_TEMPO_def
  META_TIME_SIGNATURE_def

text \<open>
  \<open>struct MidiEvent\<close>. The pointer \<open>sysexData\<close> is \<open>None\<close> for \<open>nullptr\<close> and
  \<open>Some bytes\<close> for an allocated array.
\<close>

record MidiEvent =
  deltaTime :: uint32_t
  absoluteTime :: uint32_t
  type :: uint8_t
  channel :: uint8_t
  data1 :: uint8_t
  data2 :: uint8_t
  sysexData :: "uint8_t list option"
  sysexLength :: uint16_t
  isMetaEvent :: bool
  trackNumber :: uint8_t

text \<open>The constructor \<open>MidiEvent()\<close>.\<close>

definition MidiEvent_new :: MidiEvent where
  "MidiEvent_new = \<lparr> deltaTime = 0, absoluteTime = 0, type = 0, channel = 0, data1 = 0,
     data2 = 0, sysexData = None, sysexLength = 0, isMetaEvent = False, trackNumber = 0 \<rparr>"

text \<open>
  Copy assignment \<open>operator=\<close>: the scalar fields are copied; the SysEx bytes are
  deep-copied when the source has a buffer and a positive length, otherwise the
  destination's pointer stays \<open>nullptr\<close> after its old buffer was freed.
\<close>

definition MidiEvent_assign :: "MidiEvent \<Rightarrow> MidiEvent" where
  "MidiEvent_assign other =
     other\<lparr> sysexData :=
       (case sysexData other of
          None \<Rightarrow> None
        | Some d \<Rightarrow> if 0 < sysexLength other then Some (take (unat (sysexLength other)) d)
                    else None) \<rparr>"

text \<open>\<open>struct MidiFileInfo\<close>; \<open>trackName\<close> is the 64-byte array.\<close>

record MidiFileInfo =
  format :: uint16_t
  numTracks_info :: uint16_t
  ticksPerQuarter :: uint16_t
  tempo :: uint32_t
  numerator :: uint8_t
  denominator :: uint8_t
  trackName :: "uint8_t list"

text \<open>\<open>struct TrackState\<close>; \<open>buffer\<close> is the 512-byte array.\<close>

record TrackState =
  trackStartPos :: uint32_t
  trackEndPos :: uint32_t
  filePosition :: uint32_t
  currentTick :: uint32_t
  runningStatus :: uint8_t
  endOfTrack :: bool
  nextEvent :: MidiEvent
  eventReady :: bool
  buffer :: "uint8_t list"
  bufferPos :: uint16_t
  bufferSize :: uint16_t
  bufferFilePos :: uint32_t

text \<open>
  The SdFat file handle \<open>FatFile\<close>, as far as the parser uses it: the bytes of the
  file and the read position. A FAT file is shorter than 4 GiB, SdFat keeps size and
  position in \<open>uint32_t\<close>. The card is taken to answer every read (no I/O error).
\<close>

record FatFile =
  contents :: "uint8_t list"
  curPosition :: uint32_t

text \<open>
  \<open>class MidiFileParser\<close>. \<open>midiFile\<close> is the pointer to the caller's handle
  (\<open>None\<close> for \<open>nullptr\<close>); the parser is the only one to move its position.
  \<open>tracks\<close> is the array of \<open>MAX_TRACKS\<close> track states.

  \<open>headerStack\<close> is not a member of the class: it stands for what the uninitialised
  local array \<open>char header[4]\<close> of \<open>readMidiHeader\<close> and \<open>initializeTracks\<close> holds
  before \<open>midiFile->read(header, 4)\<close> fills it; a short read leaves its tail as it was.
\<close>

record MidiFileParser =
  midiFile :: "FatFile option"
  fileInfo :: MidiFileInfo
  tracks :: "TrackState list"
  numTracks :: uint8_t
  allTracksEnded :: bool
  fileLengthTicks :: uint32_t
  sysexCount :: uint16_t
  headerStack :: "uint8_t list"

subsection \<open>MidiPlayer.h\<close>

datatype PlayerState = STATE_STOPPED | STATE_PLAYING | STATE_PAUSED

text \<open>
  \<open>class MidiPlayer\<close>. \<open>midiOut\<close> is \<open>True\<close> when the output pointer is not
  \<open>nullptr\<close>; what is sent through it is returned by the operations as a list of
  messages. The members \<open>nextEvent\<close> and \<open>eventReady\<close> of the player carry the
  suffix \<open>_pl\<close>, the track states have fields of the same names.
\<close>

record MidiPlayer =
  midiOut :: bool
  parser :: MidiFileParser
  state :: PlayerState
  ticksElapsed :: uint32_t
  lastUpdateMicros :: uint32_t
  microsecondsPerTick :: uint32_t
  tempoPercent :: uint16_t
  channelMutes :: uint16_t
  velocityScale :: uint8_t
  channelVelocities :: "uint8_t list"
  userChannelPrograms :: "uint8_t list"
  userChannelVolumes :: "uint8_t list"
  userChannelPan :: "uint8_t list"
  userChannelTranspose :: "8 word list"
  userChannelRouting :: "uint8_t list"
  nextEvent_pl :: MidiEvent
  eventReady_pl :: bool
  reachedEnd :: bool
  clockEnabled :: bool
  lastClockMicros :: uint32_t
  sysexEnabled :: bool

subsection \<open>Constructors\<close>

text \<open>
  \<open>MidiFileParser::MidiFileParser()\<close>: \<open>memset\<close> clears \<open>fileInfo\<close> and the
  track array, then the default tempo and time signature are set.
\<close>

definition TrackState_zero :: TrackState where
  "TrackState_zero = \<lparr> trackStartPos = 0, trackEndPos = 0, filePosition = 0, currentTick = 0,
     runningStatus = 0, endOfTrack = False, nextEvent = MidiEvent_new, eventReady = False,
     buffer = replicate TRACK_BUFFER_SIZE 0, bufferPos = 0, bufferSize = 0, bufferFilePos = 0 \<rparr>"

definition MidiFileParser_new :: "uint8_t list \<Rightarrow> MidiFileParser" where
  "MidiFileParser_new stack =
     \<lparr> midiFile = None,
       fileInfo = \<lparr> format = 0, numTracks_info = 0, ticksPerQuarter = 0, tempo = 500000,
                    numerator = 4, denominator = 4, trackName = replicate 64 0 \<rparr>,
       tracks = replicate MAX_TRACKS TrackState_zero,
       numTracks = 0, allTracksEnded = False, fileLengthTicks = 0, sysexCount = 0,
       headerStack = stack \<rparr>"

text \<open>\<open>MidiPlayer::MidiPlayer(MidiOutput* output)\<close>.\<close>

definition MidiPlayer_new :: "bool \<Rightarrow> uint8_t list \<Rightarrow> MidiPlayer" where
  "MidiPlayer_new output stack =
     \<lparr> midiOut = output, parser = MidiFileParser_new stack, state = STATE_STOPPED,
       ticksElapsed = 0, lastUpdateMicros = 0, microsecondsPerTick = 0, tempoPercent = 100,
       channelMutes = 0, velocityScale = 50,
       channelVelocities = replicate 16 100,
       userChannelPrograms = replicate 16 128,
       userChannelVolumes = replicate 16 255,
       userChannelPan = replicate 16 255,
       userChannelTranspose = replicate 16 0,
       userChannelRouting = replicate 16 255,
       nextEvent_pl = MidiEvent_new, eventReady_pl = False, reachedEnd = False,
       clockEnabled = False, lastClockMicros = 0, sysexEnabled = True \<rparr>"

section \<open>The file handle\<close>

text \<open>
  The SdFat calls the parser makes. \<open>available\<close> is positive while the position is
  before the end; \<open>read\<close> delivers at most the bytes that remain and advances;
  \<open>seekSet\<close> refuses a position beyond the end and then leaves the position alone.
\<close>

definition fileSize :: "FatFile \<Rightarrow> uint32_t" where
  "fileSize f = word_of_nat (length (contents f))"

definition available :: "FatFile \<Rightarrow> bool" where
  "available f = (curPosition f < fileSize f)"

definition FatFile_read :: "nat \<Rightarrow> FatFile \<Rightarrow> uint8_t list \<times> FatFile" where
  "FatFile_read nbyte f =
     (let n = min nbyte (unat (fileSize f) - unat (curPosition f));
          bytes = take n (drop (unat (curPosition f)) (contents f))
      in (bytes, f\<lparr> curPosition := curPosition f + word_of_nat (length bytes) \<rparr>))"

definition seekSet :: "uint32_t \<Rightarrow> FatFile \<Rightarrow> bool \<times> FatFile" where
  "seekSet pos f = (if pos > fileSize f then (False, f) else (True, f\<lparr> curPosition := pos \<rparr>))"

section \<open>MidiFileParser.cpp\<close>

subsection \<open>Header reads\<close>

text \<open>\<open>read8\<close>: one byte, or 0 when there is no file or nothing is left.\<close>

definition read8 :: "MidiFileParser \<Rightarrow> uint8_t \<times> MidiFileParser" where
  "read8 p =
     (case midiFile p of
        None \<Rightarrow> (0, p)
      | Some f \<Rightarrow>
          if available f then
            (case FatFile_read 1 f of
               (bytes, f') \<Rightarrow> ((case bytes of [] \<Rightarrow> 0 | b # _ \<Rightarrow> b), p\<lparr> midiFile := Some f' \<rparr>))
          else (0, p))"

definition read16 :: "MidiFileParser \<Rightarrow> uint16_t \<times> MidiFileParser" where
  "read16 p =
     (case read8 p of (b0, p0) \<Rightarrow>
      case read8 p0 of (b1, p1) \<Rightarrow>
        (push_bit 8 (ucast b0) OR ucast b1, p1))"

definition read32 :: "MidiFileParser \<Rightarrow> uint32_t \<times> MidiFileParser" where
  "read32 p =
     (case read8 p of (b0, p0) \<Rightarrow>
      case read8 p0 of (b1, p1) \<Rightarrow>
      case read8 p1 of (b2, p2) \<Rightarrow>
      case read8 p2 of (b3, p3) \<Rightarrow>
        (push_bit 24 (ucast b0) OR push_bit 16 (ucast b1) OR push_bit 8 (ucast b2) OR ucast b3,
         p3))"

text \<open>
  \<open>midiFile->read(header, 4)\<close> into the uninitialised local array: the bytes read,
  followed by what the array held before.
\<close>

definition readHeaderTag :: "MidiFileParser \<Rightarrow> FatFile \<Rightarrow> uint8_t list \<times> FatFile" where
  "readHeaderTag p f =
     (case FatFile_read 4 f of
        (bytes, f') \<Rightarrow> (take 4 (bytes @ drop (length bytes) (headerStack p)), f'))"

definition tag_MThd :: "uint8_t list" where "tag_MThd = [0x4D, 0x54, 0x68, 0x64]"
definition tag_MTrk :: "uint8_t list" where "tag_MTrk = [0x4D, 0x54, 0x72, 0x6B]"

text \<open>
  \<open>readVariableLength\<close>, the \<open>do ... while (byte & 0x80)\<close> loop on the file itself.
  \<open>read8\<close> answers 0 at the end of the file, which ends the loop.
\<close>

function readVariableLength_loop ::
  "uint32_t \<Rightarrow> MidiFileParser \<Rightarrow> uint32_t \<times> MidiFileParser" where
  "readVariableLength_loop v p =
     (case read8 p of (byte, p') \<Rightarrow>
        let v' = push_bit 7 v OR ucast (byte AND 0x7F)
        in if byte AND 0x80 \<noteq> 0 then readVariableLength_loop v' p' else (v', p'))"
  by pat_completeness auto

lemma FatFile_read_1:
  assumes "available f"
  shows "length (fst (FatFile_read 1 f)) = 1"
    and "fileSize (snd (FatFile_read 1 f)) = fileSize f"
    and "unat (curPosition (snd (FatFile_read 1 f))) = unat (curPosition f) + 1"
proof -
  have lt: "unat (curPosition f) < unat (fileSize f)"
    using assms by (simp add: available_def word_less_nat_alt)
  have le: "unat (fileSize f) \<le> length (contents f)"
    by (simp add: fileSize_def unat_of_nat)
  show l: "length (fst (FatFile_read 1 f)) = 1"
    using lt le by (auto simp add: FatFile_read_def Let_def min_def)
  show "fileSize (snd (FatFile_read 1 f)) = fileSize f"
    by (simp add: FatFile_read_def Let_def fileSize_def)
  have "curPosition (snd (FatFile_read 1 f)) = curPosition f + 1"
    using l by (simp add: FatFile_read_def Let_def)
  moreover have "unat (curPosition f) + 1 < 2 ^ 32"
    using lt unsigned_less [of "fileSize f", where 'a = nat] by simp
  ultimately show "unat (curPosition (snd (FatFile_read 1 f))) = unat (curPosition f) + 1"
    by (simp add: unat_word_ariths)
qed

termination readVariableLength_loop
proof (relation "measure (\<lambda>(v, p). case midiFile p of None \<Rightarrow> 0
                    | Some f \<Rightarrow> unat (fileSize f) - unat (curPosition f))")
  show "wf (measure (\<lambda>(v, p). case midiFile p of None \<Rightarrow> 0
                    | Some f \<Rightarrow> unat (fileSize f) - unat (curPosition f)))"
    by simp
next
  fix v :: uint32_t and p x1 x2 xa
  assume r: "(x1, x2) = read8 p" and c: "x1 AND 0x80 \<noteq> 0"
  have nz: "x1 \<noteq> 0" using c by auto
  show "((xa, x2), (v, p)) \<in> measure (\<lambda>(v, p). case midiFile p of None \<Rightarrow> 0
                    | Some f \<Rightarrow> unat (fileSize f) - unat (curPosition f))"
  proof (cases "midiFile p")
    case None
    with r nz show ?thesis by (simp add: read8_def)
  next
    case (Some f)
    show ?thesis
    proof (cases "available f")
      case False
      with r nz Some show ?thesis by (simp add: read8_def)
    next
      case True
      have x2: "midiFile x2 = Some (snd (FatFile_read 1 f))"
        using r Some True by (simp add: read8_def split: prod.splits)
      have "unat (curPosition f) < unat (fileSize f)"
        using True by (simp add: available_def word_less_nat_alt)
      then show ?thesis
        using x2 Some FatFile_read_1 [OF True] by simp
    qed
  qed
qed

declare readVariableLength_loop.simps [simp del]

definition readVariableLength :: "MidiFileParser \<Rightarrow> uint32_t \<times> MidiFileParser" where
  "readVariableLength p = readVariableLength_loop 0 p"

subsection \<open>Buffered reads of one track\<close>

text \<open>
  The functions below take a track number and work on \<open>tracks[trackNum]\<close> and the
  file. Each is given in two layers: the body, on the file handle and that one track
  state (suffix \<open>_trk\<close>), and the member function, which checks
  \<open>trackNum >= numTracks\<close>, picks the track and writes it back.
\<close>

text \<open>
  \<open>fillTrackBuffer\<close>: seek to the track's position and read up to 512 bytes of what
  the track has left into the buffer.
\<close>

definition fillTrackBuffer_trk :: "FatFile \<Rightarrow> TrackState \<Rightarrow> bool \<times> FatFile \<times> TrackState" where
  "fillTrackBuffer_trk f track =
     (let absoluteFilePos = trackStartPos track + filePosition track;
          trackBytesLeft = trackEndPos track - filePosition track
      in if trackBytesLeft = 0 then (False, f, track\<lparr> bufferSize := 0 \<rparr>)
         else
           case seekSet absoluteFilePos f of (ok, f1) \<Rightarrow>
             if \<not> ok then (False, f1, track\<lparr> bufferSize := 0 \<rparr>)
             else
               let bytesToRead = (if trackBytesLeft > 512 then 512 else ucast trackBytesLeft
                                   :: uint16_t)
               in case FatFile_read (unat bytesToRead) f1 of (bytes, f2) \<Rightarrow>
                    let track' = track\<lparr> buffer := bytes @ drop (length bytes) (buffer track),
                                   bufferSize := word_of_nat (length bytes),
                                   bufferPos := 0,
                                   bufferFilePos := filePosition track \<rparr>
                    in (bufferSize track' > 0, f2, track'))"

text \<open>\<open>readTrackByte\<close>: the next byte of the track, or 0 when the buffer cannot be refilled.\<close>

definition readTrackByte_trk :: "FatFile \<Rightarrow> TrackState \<Rightarrow> uint8_t \<times> FatFile \<times> TrackState" where
  "readTrackByte_trk f track =
     (case (if bufferPos track \<ge> bufferSize track then fillTrackBuffer_trk f track
            else (True, f, track)) of
        (ok, f1, t1) \<Rightarrow>
          if \<not> ok then (0, f1, t1)
          else (buffer t1 ! unat (bufferPos t1), f1,
                t1\<lparr> bufferPos := bufferPos t1 + 1, filePosition := filePosition t1 + 1 \<rparr>))"

text \<open>
  \<open>readTrackVariableLength\<close>: \<open>do { byte = readTrackByte(); value = (value << 7) |
  (byte & 0x7F); } while (byte & 0x80)\<close>. There is no count of the bytes read.
\<close>

function readTrackVariableLength_loop ::
  "uint32_t \<Rightarrow> FatFile \<Rightarrow> TrackState \<Rightarrow> uint32_t \<times> FatFile \<times> TrackState" where
  "readTrackVariableLength_loop v f track =
     (case readTrackByte_trk f track of (byte, f', track') \<Rightarrow>
        let v' = push_bit 7 v OR ucast (byte AND 0x7F)
        in if byte AND 0x80 \<noteq> 0 then readTrackVariableLength_loop v' f' track'
           else (v', f', track'))"
  by pat_completeness auto

text \<open>
  Termination of the loop. The position at which the buffer will next be refilled moves
  forward with every refill and never passes the end of the file; between refills the
  bytes left in the buffer decrease.
\<close>

definition vlq_refill :: "TrackState \<Rightarrow> uint32_t" where
  "vlq_refill t = trackStartPos t + filePosition t
                  + word_of_nat (unat (bufferSize t) - unat (bufferPos t))"

lemma fileSize_le_length: "unat (fileSize f) \<le> length (contents f)"
  by (simp add: fileSize_def unat_of_nat)

lemma FatFile_read_facts:
  assumes "FatFile_read n f = (bytes, f')"
  shows "fileSize f' = fileSize f"
    and "length bytes = min n (unat (fileSize f) - unat (curPosition f))"
    and "contents f' = contents f"
  using assms fileSize_le_length [of f]
  by (auto simp add: FatFile_read_def Let_def fileSize_def min_def)

lemma seekSet_facts:
  assumes "seekSet pos f = (ok, f')"
  shows "fileSize f' = fileSize f" and "contents f' = contents f"
    and "ok \<Longrightarrow> curPosition f' = pos \<and> unat pos \<le> unat (fileSize f)"
  using assms
  by (auto simp add: seekSet_def fileSize_def word_le_nat_alt not_less split: if_splits)

lemma fileSize_FatFile_read [simp]: "fileSize (snd (FatFile_read n f)) = fileSize f"
  by (simp add: FatFile_read_def Let_def fileSize_def)

lemma fileSize_seekSet [simp]: "fileSize (snd (seekSet pos f)) = fileSize f"
  by (simp add: seekSet_def fileSize_def)

lemma fileSize_fillTrackBuffer_trk [simp]:
  "fileSize (fst (snd (fillTrackBuffer_trk f t))) = fileSize f"
  by (simp add: fillTrackBuffer_trk_def Let_def case_prod_beta)

lemma fileSize_readTrackByte_trk [simp]:
  "fileSize (fst (snd (readTrackByte_trk f t))) = fileSize f"
  by (simp add: readTrackByte_trk_def Let_def case_prod_beta)

lemma fillTrackBuffer_trk_ok:
  assumes "fillTrackBuffer_trk f t = (True, f', t')"
  shows "bufferPos t' = 0" and "0 < unat (bufferSize t')" and "unat (bufferSize t') \<le> 512"
    and "filePosition t' = filePosition t" and "trackStartPos t' = trackStartPos t"
    and "trackEndPos t' = trackEndPos t"
    and "unat (trackStartPos t + filePosition t) + unat (bufferSize t') \<le> unat (fileSize f)"
    and "unat (bufferSize t') \<le> unat (trackEndPos t - filePosition t)"
proof -
  let ?abs = "trackStartPos t + filePosition t"
  let ?left = "trackEndPos t - filePosition t"
  let ?btr = "(if ?left > 512 then 512 else ucast ?left) :: uint16_t"
  from assms have nz: "?left \<noteq> 0"
    by (auto simp add: fillTrackBuffer_trk_def Let_def split: if_splits)
  obtain ok f1 where sk: "seekSet ?abs f = (ok, f1)" by (cases "seekSet ?abs f")
  with assms nz have ok: ok
    by (auto simp add: fillTrackBuffer_trk_def Let_def split: if_splits prod.splits)
  obtain bytes f2 where rd: "FatFile_read (unat ?btr) f1 = (bytes, f2)"
    by (cases "FatFile_read (unat ?btr) f1")
  have t': "t' = t\<lparr> buffer := bytes @ drop (length bytes) (buffer t),
                     bufferSize := word_of_nat (length bytes), bufferPos := 0,
                     bufferFilePos := filePosition t \<rparr>"
    and pos: "0 < (word_of_nat (length bytes) :: uint16_t)"
    using assms nz sk ok rd
    by (auto simp add: fillTrackBuffer_trk_def Let_def split: if_splits prod.splits)
  have btr: "unat ?btr \<le> 512" "unat ?btr \<le> unat ?left"
    by (auto simp add: word_less_nat_alt unsigned_ucast_eq take_bit_nat_eq_self not_less
        word_le_nat_alt)
  have len: "length bytes = min (unat ?btr) (unat (fileSize f1) - unat (curPosition f1))"
    using FatFile_read_facts(2) [OF rd] .
  have len512: "length bytes \<le> 512" using len btr by simp
  then have ul: "unat (word_of_nat (length bytes) :: uint16_t) = length bytes"
    by (simp add: unat_of_nat)
  have f1: "curPosition f1 = ?abs" "unat ?abs \<le> unat (fileSize f)" "fileSize f1 = fileSize f"
    using seekSet_facts [OF sk] ok by auto
  have bs: "unat (bufferSize t') = length bytes" by (simp add: t' ul)
  have len1: "length bytes \<le> unat ?btr"
    and len2: "length bytes \<le> unat (fileSize f) - unat ?abs"
    using len f1 by simp_all
  show "bufferPos t' = 0" by (simp add: t')
  show "0 < unat (bufferSize t')" using pos by (simp add: t' word_less_nat_alt)
  show "unat (bufferSize t') \<le> 512" using len512 bs by simp
  show "filePosition t' = filePosition t" by (simp add: t')
  show "trackStartPos t' = trackStartPos t" by (simp add: t')
  show "trackEndPos t' = trackEndPos t" by (simp add: t')
  show "unat ?abs + unat (bufferSize t') \<le> unat (fileSize f)"
    using len2 f1(2) bs by linarith
  show "unat (bufferSize t') \<le> unat ?left"
    using len1 btr(2) bs by linarith
qed

lemma readTrackByte_progress:
  assumes "readTrackByte_trk f t = (b, f', t')" and "b \<noteq> 0"
  shows "fileSize f' = fileSize f"
    and "(unat (fileSize f) - unat (vlq_refill t') < unat (fileSize f) - unat (vlq_refill t))
         \<or> (vlq_refill t' = vlq_refill t
             \<and> unat (bufferSize t') - unat (bufferPos t') < unat (bufferSize t) - unat (bufferPos t))"
proof -
  show "fileSize f' = fileSize f"
    using fileSize_readTrackByte_trk [of f t] assms(1) by simp
  show "(unat (fileSize f) - unat (vlq_refill t') < unat (fileSize f) - unat (vlq_refill t))
         \<or> (vlq_refill t' = vlq_refill t
             \<and> unat (bufferSize t') - unat (bufferPos t') < unat (bufferSize t) - unat (bufferPos t))"
  proof (cases "bufferPos t \<ge> bufferSize t")
    case False
    then have lt: "unat (bufferPos t) < unat (bufferSize t)"
      by (simp add: word_less_nat_alt not_le)
    have t': "t' = t\<lparr> bufferPos := bufferPos t + 1, filePosition := filePosition t + 1 \<rparr>"
      using assms(1) False by (simp add: readTrackByte_trk_def)
    have "unat (bufferPos t) + 1 < 2 ^ 16"
      using lt unsigned_less [of "bufferSize t", where 'a = nat] by simp
    then have up: "unat (bufferPos t + 1) = unat (bufferPos t) + 1"
      by (simp add: unat_word_ariths)
    obtain k where k: "unat (bufferSize t) - unat (bufferPos t) = Suc k"
      using lt by (metis Suc_diff_Suc)
    have k': "unat (bufferSize t) - Suc (unat (bufferPos t)) = k"
      using k by simp
    have "vlq_refill t' = vlq_refill t"
      by (simp add: vlq_refill_def t' up k k')
    then show ?thesis
      using lt by (simp add: t' up)
  next
    case True
    obtain ok f1 t1 where fl: "fillTrackBuffer_trk f t = (ok, f1, t1)"
      by (cases "fillTrackBuffer_trk f t")
    with assms True have ok: ok
      by (auto simp add: readTrackByte_trk_def split: if_splits)
    have t': "t' = t1\<lparr> bufferPos := bufferPos t1 + 1, filePosition := filePosition t1 + 1 \<rparr>"
      using assms(1) True fl ok by (simp add: readTrackByte_trk_def)
    note F = fillTrackBuffer_trk_ok [OF fl [unfolded ok [THEN eqTrueI]]]
    let ?abs = "trackStartPos t + filePosition t"
    let ?n = "unat (bufferSize t1)"
    have rem0: "unat (bufferSize t) - unat (bufferPos t) = 0"
      using True by (simp add: word_le_nat_alt)
    have r0: "vlq_refill t = ?abs" by (simp add: vlq_refill_def rem0)
    obtain k where k: "?n = Suc k" using F(2) by (cases ?n) auto
    have "vlq_refill t' = ?abs + 1 + word_of_nat k"
      by (simp add: vlq_refill_def t' F k)
    also have "\<dots> = ?abs + word_of_nat ?n" by (simp add: k)
    finally have r1: "vlq_refill t' = ?abs + word_of_nat ?n" .
    have un: "unat (word_of_nat ?n :: uint32_t) = ?n"
      using F(3) by (simp add: unsigned_ucast_eq take_bit_nat_eq_self)
    have "unat ?abs + unat (word_of_nat ?n :: uint32_t) < 2 ^ LENGTH(32)"
      using F(7) unsigned_less [of "fileSize f", where 'a = nat] un by simp
    then have "unat (?abs + word_of_nat ?n) = unat ?abs + unat (word_of_nat ?n :: uint32_t)"
      by (simp only: unat_add_lem)
    then have "unat (vlq_refill t') = unat ?abs + ?n"
      using r1 un by simp
    then have "unat (fileSize f) - unat (vlq_refill t') < unat (fileSize f) - unat (vlq_refill t)"
      using F(2,7) r0 by simp
    then show ?thesis by blast
  qed
qed

termination readTrackVariableLength_loop
proof (relation "measures [\<lambda>(v, f, t). unat (fileSize f) - unat (vlq_refill t),
                           \<lambda>(v, f, t). unat (bufferSize t) - unat (bufferPos t)]")
  show "wf (measures [\<lambda>(v, f, t). unat (fileSize f) - unat (vlq_refill t),
                      \<lambda>(v, f, t). unat (bufferSize t) - unat (bufferPos t)])"
    by simp
next
  fix v :: uint32_t and f track x1 x2 x1a x2a xa
  assume r: "(x1, x2) = readTrackByte_trk f track" and x2: "(x1a, x2a) = x2"
    and c: "x1 AND 0x80 \<noteq> 0"
  have nz: "x1 \<noteq> 0" using c by auto
  have r': "readTrackByte_trk f track = (x1, x1a, x2a)" using r x2 by simp
  from readTrackByte_progress [OF r' nz]
  show "((xa, x1a, x2a), (v, f, track))
        \<in> measures [\<lambda>(v, f, t). unat (fileSize f) - unat (vlq_refill t),
                     \<lambda>(v, f, t). unat (bufferSize t) - unat (bufferPos t)]"
    by auto
qed


declare readTrackVariableLength_loop.simps [simp del]

definition readTrackVariableLength_trk ::
  "FatFile \<Rightarrow> TrackState \<Rightarrow> uint32_t \<times> FatFile \<times> TrackState" where
  "readTrackVariableLength_trk f track = readTrackVariableLength_loop 0 f track"

text \<open>
  \<open>for (i = 0; i < length; i++) readTrackByte(trackNum)\<close>: the bytes the calls return,
  in order (a call that cannot refill the buffer returns 0 and consumes nothing).
\<close>

primrec readTrackBytes_trk ::
  "nat \<Rightarrow> FatFile \<Rightarrow> TrackState \<Rightarrow> uint8_t list \<times> FatFile \<times> TrackState" where
  "readTrackBytes_trk 0 f track = ([], f, track)"
| "readTrackBytes_trk (Suc n) f track =
     (case readTrackByte_trk f track of (b, f1, t1) \<Rightarrow>
      case readTrackBytes_trk n f1 t1 of (bs, f2, t2) \<Rightarrow> (b # bs, f2, t2))"

subsection \<open>readTrackEvent\<close>

text \<open>
  The \<open>switch (metaType)\<close> of a meta event, after type and length were read. The first
  component is \<open>False\<close> where the source leaves \<open>readTrackEvent\<close> with
  \<open>return false\<close> (end of track), \<open>True\<close> where it reaches \<open>break\<close>.
\<close>

definition readMetaPayload ::
  "uint8_t \<Rightarrow> uint32_t \<Rightarrow> FatFile \<Rightarrow> MidiFileInfo \<Rightarrow> TrackState
     \<Rightarrow> bool \<times> FatFile \<times> MidiFileInfo \<times> TrackState" where
  "readMetaPayload metaType len f info track =
     (if metaType = META_TEMPO then
        (if len = 3 then
           case readTrackByte_trk f track of (b0, f0, t0) \<Rightarrow>
           case readTrackByte_trk f0 t0 of (b1, f1, t1) \<Rightarrow>
           case readTrackByte_trk f1 t1 of (b2, f2, t2) \<Rightarrow>
             let tempo' = (push_bit 16 (ucast b0) OR push_bit 8 (ucast b1) OR ucast b2
                            :: uint32_t)
             in (True, f2,
                 (if tempo' \<ge> 100000 \<and> tempo' \<le> 10000000 then info\<lparr> tempo := tempo' \<rparr>
                  else info),
                 t2)
         else
           case readTrackBytes_trk (unat len) f track of (bs, f', t') \<Rightarrow> (True, f', info, t'))
      else if metaType = META_TIME_SIGNATURE then
        (if len = 4 then
           case readTrackByte_trk f track of (b0, f0, t0) \<Rightarrow>
           case readTrackByte_trk f0 t0 of (b1, f1, t1) \<Rightarrow>
           case readTrackByte_trk f1 t1 of (b2, f2, t2) \<Rightarrow>
           case readTrackByte_trk f2 t2 of (b3, f3, t3) \<Rightarrow>
             (True, f3,
              info\<lparr> numerator := b0,
                    denominator := ucast (push_bit (unat b1) (1 :: uint32_t)) \<rparr>,
              t3)
         else (True, f, info, track))
      else if metaType = META_TRACK_NAME then
        (if len < 64 then
           case readTrackBytes_trk (unat len) f track of (bs, f', t') \<Rightarrow>
             (True, f',
              info\<lparr> trackName := bs @ [0] @ drop (Suc (length bs)) (trackName info) \<rparr>,
              t')
         else
           case readTrackBytes_trk (unat len) f track of (bs, f', t') \<Rightarrow> (True, f', info, t'))
      else if metaType = META_END_OF_TRACK then
        (False, f, info, track\<lparr> endOfTrack := True \<rparr>)
      else
        case readTrackBytes_trk (unat len) f track of (bs, f', t') \<Rightarrow> (True, f', info, t'))"

text \<open>The three branches on the resolved status byte.\<close>

definition readSysExEvent ::
  "FatFile \<Rightarrow> MidiFileInfo \<Rightarrow> TrackState \<Rightarrow> MidiEvent
     \<Rightarrow> bool \<times> FatFile \<times> MidiFileInfo \<times> TrackState \<times> MidiEvent" where
  "readSysExEvent f info track event =
     (case readTrackVariableLength_trk f track of (len, f1, t1) \<Rightarrow>
      case readTrackBytes_trk (unat len) f1 t1 of (bs, f2, t2) \<Rightarrow>
        (True, f2, info, t2\<lparr> runningStatus := 0 \<rparr>,
         event\<lparr> sysexLength := ucast len, sysexData := Some bs \<rparr>))"

definition readMetaEvent ::
  "FatFile \<Rightarrow> MidiFileInfo \<Rightarrow> TrackState \<Rightarrow> MidiEvent
     \<Rightarrow> bool \<times> FatFile \<times> MidiFileInfo \<times> TrackState \<times> MidiEvent" where
  "readMetaEvent f info track event =
     (case readTrackByte_trk f track of (metaType, f1, t1) \<Rightarrow>
      case readTrackVariableLength_trk f1 t1 of (len, f2, t2) \<Rightarrow>
      case readMetaPayload metaType len f2 info t2 of (cont, f3, info3, t3) \<Rightarrow>
        let event' = event\<lparr> isMetaEvent := True, data1 := metaType \<rparr>
        in if cont then (True, f3, info3, t3\<lparr> runningStatus := 0 \<rparr>, event')
           else (False, f3, info3, t3, event'))"

definition readChannelEvent ::
  "FatFile \<Rightarrow> MidiFileInfo \<Rightarrow> TrackState \<Rightarrow> MidiEvent
     \<Rightarrow> bool \<times> FatFile \<times> MidiFileInfo \<times> TrackState \<times> MidiEvent" where
  "readChannelEvent f info track event =
     (if type event = MIDI_NOTE_OFF \<or> type event = MIDI_NOTE_ON
         \<or> type event = MIDI_POLY_AFTERTOUCH \<or> type event = MIDI_CONTROL_CHANGE
         \<or> type event = MIDI_PITCH_BEND then
        case readTrackByte_trk f track of (d1, f1, t1) \<Rightarrow>
        case readTrackByte_trk f1 t1 of (d2, f2, t2) \<Rightarrow>
          (True, f2, info, t2, event\<lparr> data1 := d1, data2 := d2 \<rparr>)
      else if type event = MIDI_PROGRAM_CHANGE \<or> type event = MIDI_CHANNEL_AFTERTOUCH then
        case readTrackByte_trk f track of (d1, f1, t1) \<Rightarrow>
          (True, f1, info, t1, event\<lparr> data1 := d1, data2 := 0 \<rparr>)
      else (False, f, info, track, event))"

text \<open>
  \<open>readTrackEvent\<close> on one track. A status byte below 0x80 is a data byte under running
  status: the stored status is used and the byte is put back by decrementing
  \<open>bufferPos\<close> and \<open>filePosition\<close>.
\<close>

definition readTrackEvent_trk ::
  "uint8_t \<Rightarrow> FatFile \<Rightarrow> MidiFileInfo \<Rightarrow> TrackState \<Rightarrow> MidiEvent
     \<Rightarrow> bool \<times> FatFile \<times> MidiFileInfo \<times> TrackState \<times> MidiEvent" where
  "readTrackEvent_trk trackNum f info track event =
     (if endOfTrack track then (False, f, info, track, event)
      else if filePosition track \<ge> trackEndPos track then
        (False, f, info, track\<lparr> endOfTrack := True \<rparr>, event)
      else
        case readTrackVariableLength_trk f track of (delta, f1, t1) \<Rightarrow>
        let t2 = t1\<lparr> currentTick := currentTick t1 + delta \<rparr>;
            e2 = event\<lparr> deltaTime := delta, absoluteTime := currentTick t2,
                         trackNumber := trackNum \<rparr>
        in case readTrackByte_trk f1 t2 of (sb, f3, t3) \<Rightarrow>
        let statusByte = (if sb < 0x80 then runningStatus t3 else sb);
            t4 = (if sb < 0x80
                  then t3\<lparr> bufferPos := bufferPos t3 - 1, filePosition := filePosition t3 - 1 \<rparr>
                  else t3\<lparr> runningStatus := sb \<rparr>);
            e4 = e2\<lparr> type := statusByte AND 0xF0, channel := statusByte AND 0x0F,
                      isMetaEvent := False, sysexData := None, sysexLength := 0 \<rparr>
        in if statusByte = MIDI_SYSEX \<or> statusByte = 0xF7 then readSysExEvent f3 info t4 e4
           else if statusByte = MIDI_META_EVENT then readMetaEvent f3 info t4 e4
           else readChannelEvent f3 info t4 e4)"

subsection \<open>The member functions on a track number\<close>

text \<open>
  The members dereference \<open>midiFile\<close> without a check. \<open>numTracks\<close> is positive only
  after a header was read through the handle and \<open>close\<close> clears both, so a track is
  never read without a file; the model leaves the state alone in that case.
\<close>

definition fillTrackBuffer :: "uint8_t \<Rightarrow> MidiFileParser \<Rightarrow> bool \<times> MidiFileParser" where
  "fillTrackBuffer trackNum p =
     (if trackNum \<ge> numTracks p then (False, p)
      else case midiFile p of
        None \<Rightarrow> (False, p)
      | Some f \<Rightarrow>
          case fillTrackBuffer_trk f (tracks p ! unat trackNum) of (ok, f', t') \<Rightarrow>
            (ok, p\<lparr> midiFile := Some f', tracks := (tracks p)[unat trackNum := t'] \<rparr>))"

definition readTrackByte :: "uint8_t \<Rightarrow> MidiFileParser \<Rightarrow> uint8_t \<times> MidiFileParser" where
  "readTrackByte trackNum p =
     (if trackNum \<ge> numTracks p then (0, p)
      else case midiFile p of
        None \<Rightarrow> (0, p)
      | Some f \<Rightarrow>
          case readTrackByte_trk f (tracks p ! unat trackNum) of (b, f', t') \<Rightarrow>
            (b, p\<lparr> midiFile := Some f', tracks := (tracks p)[unat trackNum := t'] \<rparr>))"

definition readTrackVariableLength :: "uint8_t \<Rightarrow> MidiFileParser \<Rightarrow> uint32_t \<times> MidiFileParser" where
  "readTrackVariableLength trackNum p =
     (if trackNum \<ge> numTracks p then (0, p)
      else case midiFile p of
        None \<Rightarrow> (0, p)
      | Some f \<Rightarrow>
          case readTrackVariableLength_trk f (tracks p ! unat trackNum) of (v, f', t') \<Rightarrow>
            (v, p\<lparr> midiFile := Some f', tracks := (tracks p)[unat trackNum := t'] \<rparr>))"

text \<open>
  \<open>readTrackEvent(trackNum, event)\<close>. Both callers pass \<open>tracks[trackNum].nextEvent\<close>
  as \<open>event\<close>, so the event is read and written in place, also when the call
  returns \<open>false\<close> half way.
\<close>

definition readTrackEvent :: "uint8_t \<Rightarrow> MidiFileParser \<Rightarrow> bool \<times> MidiFileParser" where
  "readTrackEvent trackNum p =
     (if trackNum \<ge> numTracks p then (False, p)
      else case midiFile p of
        None \<Rightarrow> (False, p)
      | Some f \<Rightarrow>
          let track = tracks p ! unat trackNum
          in case readTrackEvent_trk trackNum f (fileInfo p) track (nextEvent track) of
               (ok, f', info', t', e') \<Rightarrow>
                 (ok, p\<lparr> midiFile := Some f', fileInfo := info',
                         tracks := (tracks p)[unat trackNum := t'\<lparr> nextEvent := e' \<rparr>] \<rparr>))"

subsection \<open>Header and track table\<close>

definition readHeader4 :: "MidiFileParser \<Rightarrow> uint8_t list \<times> MidiFileParser" where
  "readHeader4 p =
     (case midiFile p of
        None \<Rightarrow> (take 4 (headerStack p), p)
      | Some f \<Rightarrow>
          case readHeaderTag p f of (header, f') \<Rightarrow> (header, p\<lparr> midiFile := Some f' \<rparr>))"

definition file_curPosition :: "MidiFileParser \<Rightarrow> uint32_t" where
  "file_curPosition p = (case midiFile p of None \<Rightarrow> 0 | Some f \<Rightarrow> curPosition f)"

definition file_seekSet :: "uint32_t \<Rightarrow> MidiFileParser \<Rightarrow> bool \<times> MidiFileParser" where
  "file_seekSet pos p =
     (case midiFile p of
        None \<Rightarrow> (False, p)
      | Some f \<Rightarrow> case seekSet pos f of (ok, f') \<Rightarrow> (ok, p\<lparr> midiFile := Some f' \<rparr>))"

text \<open>
  \<open>readMidiHeader\<close>. The signature and the header length are checked; \<open>format\<close>,
  the track count and \<open>ticksPerQuarter\<close> are stored as read. \<open>numTracks\<close> is a
  \<open>uint8_t\<close>: the 16-bit count is narrowed first and limited to \<open>MAX_TRACKS\<close> after.
\<close>

definition readMidiHeader :: "MidiFileParser \<Rightarrow> bool \<times> MidiFileParser" where
  "readMidiHeader p =
     (case midiFile p of
        None \<Rightarrow> (False, p)
      | Some _ \<Rightarrow>
          case readHeader4 p of (header, p1) \<Rightarrow>
            if header \<noteq> tag_MThd then (False, p1)
            else
              case read32 p1 of (headerLength, p2) \<Rightarrow>
                if headerLength \<noteq> 6 then (False, p2)
                else
                  case read16 p2 of (fmt, p3) \<Rightarrow>
                  case read16 p3 of (nt, p4) \<Rightarrow>
                  case read16 p4 of (tpq, p5) \<Rightarrow>
                    let n = (ucast nt :: uint8_t)
                    in (True,
                        p5\<lparr> fileInfo := (fileInfo p5)\<lparr> format := fmt, numTracks_info := nt,
                                                      ticksPerQuarter := tpq \<rparr>,
                            numTracks := (if n > 16 then 16 else n) \<rparr>))"

text \<open>
  \<open>initializeTracks\<close>, first loop, one pass of its body for track \<open>i\<close>: read the
  \<open>"MTrk"\<close> chunk header, record where the track data starts and how long it is, and
  seek past it.
\<close>

definition initTrackHeader :: "uint8_t \<Rightarrow> MidiFileParser \<Rightarrow> bool \<times> MidiFileParser" where
  "initTrackHeader i p =
     (case readHeader4 p of (header, p1) \<Rightarrow>
        if header \<noteq> tag_MTrk then (False, p1)
        else
          case read32 p1 of (trackLength, p2) \<Rightarrow>
            let start = file_curPosition p2;
                track = (tracks p2 ! unat i)
                  \<lparr> trackStartPos := start, trackEndPos := trackLength, filePosition := 0,
                    currentTick := 0, runningStatus := 0, endOfTrack := False,
                    eventReady := False, bufferPos := 0, bufferSize := 0, bufferFilePos := 0 \<rparr>;
                p3 = p2\<lparr> tracks := (tracks p2)[unat i := track] \<rparr>
            in file_seekSet (start + trackLength) p3)"

fun initTrackHeaders :: "uint8_t list \<Rightarrow> MidiFileParser \<Rightarrow> bool \<times> MidiFileParser" where
  "initTrackHeaders [] p = (True, p)"
| "initTrackHeaders (i # rest) p =
     (case initTrackHeader i p of (ok, p') \<Rightarrow>
        if ok then initTrackHeaders rest p' else (False, p'))"

text \<open>Second loop: fill the buffer of each track and read its first event ahead.\<close>

definition preReadTrack :: "uint8_t \<Rightarrow> MidiFileParser \<Rightarrow> MidiFileParser" where
  "preReadTrack i p =
     (case fillTrackBuffer i p of (_, p1) \<Rightarrow>
      case readTrackEvent i p1 of (ok, p2) \<Rightarrow>
        if ok then p2\<lparr> tracks := (tracks p2)[unat i := (tracks p2 ! unat i)\<lparr> eventReady := True \<rparr>] \<rparr>
        else p2)"

definition trackIndices :: "MidiFileParser \<Rightarrow> uint8_t list" where
  "trackIndices p = map word_of_nat [0..<unat (numTracks p)]"

definition initializeTracks :: "MidiFileParser \<Rightarrow> bool \<times> MidiFileParser" where
  "initializeTracks p =
     (case midiFile p of
        None \<Rightarrow> (False, p)
      | Some _ \<Rightarrow>
          case initTrackHeaders (trackIndices p) p of (ok, p1) \<Rightarrow>
            if \<not> ok then (False, p1)
            else (True, fold preReadTrack (trackIndices p1) p1))"

text \<open>\<open>open(filename, file)\<close>; the file name is not used.\<close>

definition MidiFileParser_open :: "FatFile option \<Rightarrow> MidiFileParser \<Rightarrow> bool \<times> MidiFileParser" where
  "MidiFileParser_open file p =
     (let p0 = p\<lparr> midiFile := file, allTracksEnded := False,
                  fileInfo := (fileInfo p)\<lparr> tempo := 500000, numerator := 4, denominator := 4,
                                             trackName := replicate 64 0 \<rparr> \<rparr>
      in case readMidiHeader p0 of (ok1, p1) \<Rightarrow>
           if \<not> ok1 then (False, p1)
           else
             case initializeTracks p1 of (ok2, p2) \<Rightarrow>
               if \<not> ok2 then (False, p2)
               else (True, p2\<lparr> fileLengthTicks := 0 \<rparr>))"

subsection \<open>readNextEvent and reset\<close>

text \<open>
  The search loop of \<open>readNextEvent\<close>: \<open>earliestTrack\<close> is an \<open>int8_t\<close> that starts
  at \<open>-1\<close> (here the byte 0xFF), \<open>earliestTime\<close> starts at \<open>0xFFFFFFFF\<close>, and a
  track takes over only with a strictly smaller time.
\<close>

definition earliestStep ::
  "MidiFileParser \<Rightarrow> uint8_t \<Rightarrow> uint8_t \<times> uint32_t \<Rightarrow> uint8_t \<times> uint32_t" where
  "earliestStep p i acc =
     (let track = tracks p ! unat i
      in if eventReady track \<and> \<not> endOfTrack track
            \<and> absoluteTime (nextEvent track) < snd acc
         then (i, absoluteTime (nextEvent track))
         else acc)"

definition findEarliest :: "MidiFileParser \<Rightarrow> uint8_t \<times> uint32_t" where
  "findEarliest p = fold (earliestStep p) (trackIndices p) (0xFF, 0xFFFFFFFF)"

definition readNextEvent ::
  "MidiEvent \<Rightarrow> MidiFileParser \<Rightarrow> bool \<times> MidiEvent \<times> MidiFileParser" where
  "readNextEvent event p =
     (if allTracksEnded p then (False, event, p)
      else
        let earliestTrack = fst (findEarliest p)
        in if earliestTrack = 0xFF then (False, event, p\<lparr> allTracksEnded := True \<rparr>)
           else
             let event' = MidiEvent_assign (nextEvent (tracks p ! unat earliestTrack))
             in case readTrackEvent earliestTrack p of (ok, p1) \<Rightarrow>
                  (True, event',
                   p1\<lparr> tracks := (tracks p1)[unat earliestTrack :=
                          (tracks p1 ! unat earliestTrack)\<lparr> eventReady := ok \<rparr>] \<rparr>))"

definition reset :: "MidiFileParser \<Rightarrow> bool \<times> MidiFileParser" where
  "reset p =
     (case midiFile p of
        None \<Rightarrow> (False, p)
      | Some _ \<Rightarrow>
          case file_seekSet 0 p of (ok, p0) \<Rightarrow>
            if \<not> ok then (False, p0)
            else
              let p1 = snd (readMidiHeader p0);
                  p2 = snd (initializeTracks p1)
              in (True, p2\<lparr> allTracksEnded := False \<rparr>))"

section \<open>MidiPlayer.cpp\<close>

text \<open>
  \<open>calculateMicrosecondsPerTick\<close>. Both divisions are undefined in C++ for a zero
  divisor; the model returns \<open>None\<close> there. The product is formed at 64 bits and
  cast back to \<open>uint32_t\<close>.
\<close>

definition calculateMicrosecondsPerTick :: "MidiPlayer \<Rightarrow> MidiPlayer option" where
  "calculateMicrosecondsPerTick pl =
     (let info = fileInfo (parser pl);
          tempo0 = tempo info
      in if tempoPercent pl = 0 \<or> ticksPerQuarter info = 0 then None
         else
           let tempo1 = (ucast (((ucast tempo0 :: uint64_t) * 1000) div ucast (tempoPercent pl))
                          :: uint32_t)
           in Some (pl\<lparr> microsecondsPerTick := tempo1 div ucast (ticksPerQuarter info) \<rparr>))"

definition setTempoPercent :: "uint16_t \<Rightarrow> MidiPlayer \<Rightarrow> MidiPlayer option" where
  "setTempoPercent percent pl =
     (let percent1 = (if percent < 500 then 500 else percent);
          percent2 = (if percent1 > 2000 then 2000 else percent1)
      in calculateMicrosecondsPerTick (pl\<lparr> tempoPercent := percent2 \<rparr>))"


subsection \<open>MidiOutput.cpp\<close>

text \<open>
  What reaches the serial MIDI library. Every \<open>MidiOutput\<close> method checks its
  arguments and then calls the library once; the model returns the messages of those
  calls, in order. Channels are 1 to 16 here.
\<close>

datatype MidiMessage =
    NoteOn uint8_t uint8_t uint8_t
  | NoteOff uint8_t uint8_t uint8_t
  | ControlChange uint8_t uint8_t uint8_t
  | ProgramChange uint8_t uint8_t
  | PitchBend uint8_t "16 word"
  | AfterTouch uint8_t uint8_t
  | PolyAfterTouch uint8_t uint8_t uint8_t
  | SysEx "uint8_t list"
  | Clock | Start | Continue | Stop

definition sendNoteOn :: "uint8_t \<Rightarrow> uint8_t \<Rightarrow> uint8_t \<Rightarrow> MidiMessage list" where
  "sendNoteOn ch note velocity =
     (if ch < 1 \<or> ch > 16 \<or> note > 127 \<or> velocity > 127 then []
      else [NoteOn ch note velocity])"

definition sendNoteOff :: "uint8_t \<Rightarrow> uint8_t \<Rightarrow> uint8_t \<Rightarrow> MidiMessage list" where
  "sendNoteOff ch note velocity =
     (if ch < 1 \<or> ch > 16 \<or> note > 127 \<or> velocity > 127 then []
      else [NoteOff ch note velocity])"

definition sendControlChange :: "uint8_t \<Rightarrow> uint8_t \<Rightarrow> uint8_t \<Rightarrow> MidiMessage list" where
  "sendControlChange ch cc val =
     (if ch < 1 \<or> ch > 16 \<or> cc > 127 \<or> val > 127 then []
      else [ControlChange ch cc val])"

definition sendProgramChange :: "uint8_t \<Rightarrow> uint8_t \<Rightarrow> MidiMessage list" where
  "sendProgramChange ch program =
     (if ch < 1 \<or> ch > 16 \<or> program > 127 then [] else [ProgramChange ch program])"

definition sendPitchBend :: "uint8_t \<Rightarrow> 16 word \<Rightarrow> MidiMessage list" where
  "sendPitchBend ch bend = (if ch < 1 \<or> ch > 16 then [] else [PitchBend ch bend])"

definition sendAfterTouch :: "uint8_t \<Rightarrow> uint8_t \<Rightarrow> MidiMessage list" where
  "sendAfterTouch ch pressure =
     (if ch < 1 \<or> ch > 16 \<or> pressure > 127 then [] else [AfterTouch ch pressure])"

definition sendPolyAfterTouch :: "uint8_t \<Rightarrow> uint8_t \<Rightarrow> uint8_t \<Rightarrow> MidiMessage list" where
  "sendPolyAfterTouch ch note pressure =
     (if ch < 1 \<or> ch > 16 \<or> note > 127 \<or> pressure > 127 then []
      else [PolyAfterTouch ch note pressure])"

definition sendSysEx :: "uint8_t list \<Rightarrow> uint16_t \<Rightarrow> MidiMessage list" where
  "sendSysEx bytes len = [SysEx (take (unat len) bytes)]"

subsection \<open>Transport\<close>

text \<open>
  The operations of the player return the messages sent and the new player. The result
  is \<open>None\<close> where the C++ is undefined: a division by zero in
  \<open>calculateMicrosecondsPerTick\<close>, or a clock message sent through a null
  \<open>midiOut\<close> (only \<open>stopAllNotes\<close>, \<open>sendMidiEvent\<close> and \<open>muteChannel\<close> test the
  pointer). \<open>delay\<close> and \<open>yield\<close> change nothing and are left out; the readings of
  \<open>micros()\<close> taken during a call are the argument \<open>now\<close>.
\<close>

definition stopAllNotes :: "MidiPlayer \<Rightarrow> MidiMessage list" where
  "stopAllNotes pl =
     (if \<not> midiOut pl then []
      else concat (map (\<lambda>ch. sendControlChange (word_of_nat ch) 123 0) [1..<17]))"

definition sendClockMessage :: "MidiMessage \<Rightarrow> MidiPlayer \<Rightarrow> MidiMessage list option" where
  "sendClockMessage m pl =
     (if clockEnabled pl then (if midiOut pl then Some [m] else None) else Some [])"

text \<open>
  \<open>parser.reset()\<close> followed, when it succeeds, by \<open>eventReady =
  parser.readNextEvent(nextEvent)\<close>, as \<open>play\<close>, \<open>stop\<close>, \<open>rewind\<close> and \<open>seek\<close>
  do it.
\<close>

definition readNextEvent_pl :: "MidiPlayer \<Rightarrow> MidiPlayer" where
  "readNextEvent_pl pl =
     (case readNextEvent (nextEvent_pl pl) (parser pl) of
        (ok, ev, ps) \<Rightarrow> pl\<lparr> eventReady_pl := ok, nextEvent_pl := ev, parser := ps \<rparr>)"

definition play :: "uint32_t \<Rightarrow> MidiPlayer \<Rightarrow> (MidiMessage list \<times> MidiPlayer) option" where
  "play now pl =
     (if state pl = STATE_PLAYING then Some ([], pl)
      else
        let pl1 = pl\<lparr> reachedEnd := False \<rparr>;
            m1 = stopAllNotes pl1;
            wasStoppedAtStart = (state pl1 = STATE_STOPPED \<and> ticksElapsed pl1 = 0)
        in case (if wasStoppedAtStart then
                   (case reset (parser pl1) of
                      (ok, ps) \<Rightarrow>
                        if \<not> ok then (False, pl1\<lparr> parser := ps, state := STATE_STOPPED \<rparr>)
                        else (True, readNextEvent_pl (pl1\<lparr> parser := ps \<rparr>)))
                 else (True, pl1)) of
             (go, pl2) \<Rightarrow>
               if \<not> go then Some (m1, pl2)
               else
                 let pl3 = pl2\<lparr> state := STATE_PLAYING, lastUpdateMicros := now,
                                lastClockMicros := now \<rparr>
                 in (case sendClockMessage (if wasStoppedAtStart then Start else Continue) pl3 of
                       None \<Rightarrow> None
                     | Some m2 \<Rightarrow> Some (m1 @ m2, pl3)))"

definition pause :: "MidiPlayer \<Rightarrow> (MidiMessage list \<times> MidiPlayer) option" where
  "pause pl =
     (if state pl \<noteq> STATE_PLAYING then Some ([], pl)
      else
        let pl1 = pl\<lparr> state := STATE_PAUSED \<rparr>
        in case sendClockMessage Stop pl1 of
             None \<Rightarrow> None
           | Some m1 \<Rightarrow> Some (m1 @ stopAllNotes pl1, pl1))"

definition stop :: "bool \<Rightarrow> MidiPlayer \<Rightarrow> (MidiMessage list \<times> MidiPlayer) option" where
  "stop resetToBeginning pl =
     (if state pl = STATE_STOPPED then Some ([], pl)
      else
        let pl1 = pl\<lparr> state := STATE_STOPPED \<rparr>
        in case sendClockMessage Stop pl1 of
             None \<Rightarrow> None
           | Some m1 \<Rightarrow>
               let m2 = stopAllNotes pl1
               in if resetToBeginning then
                    (case reset (parser pl1) of
                       (ok, ps) \<Rightarrow>
                         if ok then
                           Some (m1 @ m2,
                                 readNextEvent_pl (pl1\<lparr> parser := ps, ticksElapsed := 0 \<rparr>))
                         else Some (m1 @ m2, pl1\<lparr> parser := ps \<rparr>))
                  else Some (m1 @ m2, pl1))"

text \<open>
  \<open>loadFile\<close>: the current playback is stopped (with the default \<open>resetToBeginning =
  true\<close>), the position is cleared, and the parser opens the file. The player's own copy
  of the file pointer is only assigned and is not part of the model.
\<close>

definition loadFile ::
  "FatFile option \<Rightarrow> MidiPlayer \<Rightarrow> (bool \<times> MidiMessage list \<times> MidiPlayer) option" where
  "loadFile file pl =
     (case file of
        None \<Rightarrow> Some (False, [], pl)
      | Some _ \<Rightarrow>
          (case stop True pl of
             None \<Rightarrow> None
           | Some (m, pl1) \<Rightarrow>
               let pl2 = pl1\<lparr> ticksElapsed := 0 \<rparr>
               in (case MidiFileParser_open file (parser pl2) of
                     (ok, ps) \<Rightarrow>
                       if \<not> ok then Some (False, m, pl2\<lparr> parser := ps \<rparr>)
                       else Some (True, m, readNextEvent_pl (pl2\<lparr> parser := ps \<rparr>)))))"

subsection \<open>sendMidiEvent\<close>

text \<open>
  \<open>int16_t transposedNote = event.data1 + userChannelTranspose[event.channel]\<close>,
  limited to 0..127 and cast to \<open>uint8_t\<close>. The transpose table holds \<open>int8_t\<close>.
\<close>

definition transposedNote :: "MidiEvent \<Rightarrow> MidiPlayer \<Rightarrow> uint8_t" where
  "transposedNote event pl =
     (let n = uint (data1 event) + sint (userChannelTranspose pl ! unat (channel event))
      in if n < 0 then 0 else if n > 127 then 127 else word_of_int n)"

text \<open>
  The velocity of a NoteOn with non-zero velocity. The first product is formed in
  \<open>int\<close> and stored in a \<open>uint16_t\<close>; the channel factor applies when it is not 0.
\<close>

definition scaledVelocity :: "MidiEvent \<Rightarrow> MidiPlayer \<Rightarrow> uint16_t" where
  "scaledVelocity event pl =
     (let v1 = (ucast (((ucast (data2 event) :: uint32_t) * ucast (velocityScale pl) * 2) div 100)
                 :: uint16_t);
          cv = channelVelocities pl ! unat (channel event);
          v2 = (if cv \<noteq> 0
                then (ucast (((ucast v1 :: uint32_t) * ucast cv) div 100) :: uint16_t)
                else v1);
          v3 = (if v2 > 127 then 127 else v2)
      in if v3 < 1 then 1 else v3)"

definition channelMuted :: "MidiEvent \<Rightarrow> MidiPlayer \<Rightarrow> bool" where
  "channelMuted event pl =
     ((ucast (channelMutes pl) AND push_bit (unat (channel event)) (1 :: uint32_t)) \<noteq> 0)"

definition sendMidiEvent :: "MidiEvent \<Rightarrow> MidiPlayer \<Rightarrow> (MidiMessage list \<times> MidiPlayer) option" where
  "sendMidiEvent event pl =
     (if \<not> midiOut pl then Some ([], pl)
      else if isMetaEvent event \<and> data1 event = META_TEMPO then
        (case calculateMicrosecondsPerTick pl of None \<Rightarrow> None | Some pl' \<Rightarrow> Some ([], pl'))
      else if isMetaEvent event then Some ([], pl)
      else if channel event \<ge> 16 then Some ([], pl)
      else
        let routing = userChannelRouting pl ! unat (channel event);
            ch = (if routing \<noteq> 255 then routing + 1 else channel event + 1)
        in if channelMuted event pl
              \<and> (type event = MIDI_NOTE_ON \<or> type event = MIDI_NOTE_OFF) then Some ([], pl)
           else if type event = MIDI_NOTE_OFF then
             Some (sendNoteOff ch (transposedNote event pl) (data2 event), pl)
           else if type event = MIDI_NOTE_ON then
             (if data2 event = 0 then Some (sendNoteOff ch (transposedNote event pl) 0, pl)
              else Some (sendNoteOn ch (transposedNote event pl)
                           (ucast (scaledVelocity event pl)), pl))
           else if type event = MIDI_POLY_AFTERTOUCH then
             Some (sendPolyAfterTouch ch (data1 event) (data2 event), pl)
           else if type event = MIDI_CONTROL_CHANGE then
             (if data1 event = 7 \<and> userChannelVolumes pl ! unat (channel event) < 128 then
                Some ([], pl)
              else if data1 event = 10 \<and> userChannelPan pl ! unat (channel event) < 128 then
                Some ([], pl)
              else Some (sendControlChange ch (data1 event) (data2 event), pl))
           else if type event = MIDI_PROGRAM_CHANGE then
             (if userChannelPrograms pl ! unat (channel event) < 128 then Some ([], pl)
              else Some (sendProgramChange ch (data1 event), pl))
           else if type event = MIDI_CHANNEL_AFTERTOUCH then
             Some (sendAfterTouch ch (data1 event), pl)
           else if type event = MIDI_PITCH_BEND then
             Some (sendPitchBend ch
                     ((push_bit 7 (ucast (data2 event)) OR ucast (data1 event)) - 8192), pl)
           else if type event = MIDI_SYSEX then
             (if \<not> sysexEnabled pl then Some ([], pl)
              else case sysexData event of
                     None \<Rightarrow> Some ([], pl)
                   | Some d \<Rightarrow>
                       if sysexLength event > 0 then Some (sendSysEx d (sysexLength event), pl)
                       else Some ([], pl))
           else Some ([], pl))"

subsection \<open>Settings\<close>

definition setVelocityScale :: "uint8_t \<Rightarrow> MidiPlayer \<Rightarrow> MidiPlayer" where
  "setVelocityScale scale pl =
     (let s1 = (if scale < 1 then 1 else scale);
          s2 = (if s1 > 100 then 100 else s1)
      in pl\<lparr> velocityScale := s2 \<rparr>)"

definition muteChannel :: "uint8_t \<Rightarrow> MidiPlayer \<Rightarrow> MidiMessage list \<times> MidiPlayer" where
  "muteChannel ch pl =
     (if ch \<ge> 16 then ([], pl)
      else
        let pl1 = pl\<lparr> channelMutes :=
                    ucast (ucast (channelMutes pl) OR push_bit (unat ch) (1 :: uint32_t)) \<rparr>
        in (if midiOut pl1 then sendControlChange (ch + 1) 123 0 else [], pl1))"

definition unmuteChannel :: "uint8_t \<Rightarrow> MidiPlayer \<Rightarrow> MidiPlayer" where
  "unmuteChannel ch pl =
     (if ch \<ge> 16 then pl
      else pl\<lparr> channelMutes :=
             ucast (ucast (channelMutes pl) AND NOT (push_bit (unat ch) (1 :: uint32_t))) \<rparr>)"

definition isChannelMuted :: "uint8_t \<Rightarrow> MidiPlayer \<Rightarrow> bool" where
  "isChannelMuted ch pl =
     (if ch \<ge> 16 then False
      else (ucast (channelMutes pl) AND push_bit (unat ch) (1 :: uint32_t)) \<noteq> 0)"

definition toggleMuteChannel :: "uint8_t \<Rightarrow> MidiPlayer \<Rightarrow> MidiMessage list \<times> MidiPlayer" where
  "toggleMuteChannel ch pl =
     (if isChannelMuted ch pl then ([], unmuteChannel ch pl) else muteChannel ch pl)"

subsection \<open>Seeking\<close>

definition millisecondsToTicks :: "uint32_t \<Rightarrow> MidiPlayer \<Rightarrow> uint32_t" where
  "millisecondsToTicks ms pl =
     (if microsecondsPerTick pl = 0 then 0
      else ucast (((ucast ms :: uint64_t) * 1000) div ucast (microsecondsPerTick pl)))"

definition MAX_EVENTS_PER_FF :: uint32_t where "MAX_EVENTS_PER_FF = 50000"

text \<open>
  The skip loop of \<open>fastForward\<close>: events up to the target tick are read and dropped,
  at most \<open>MAX_EVENTS_PER_FF\<close> of them. The SysEx buffer of the pending event is freed
  before the next one is read into it.
\<close>

function fastForward_loop :: "uint32_t \<Rightarrow> uint32_t \<Rightarrow> MidiPlayer \<Rightarrow> MidiPlayer" where
  "fastForward_loop targetTicks eventsProcessed pl =
     (if eventReady_pl pl \<and> absoluteTime (nextEvent_pl pl) \<le> targetTicks
         \<and> eventsProcessed < MAX_EVENTS_PER_FF
      then fastForward_loop targetTicks (eventsProcessed + 1)
             (readNextEvent_pl (pl\<lparr> nextEvent_pl := (nextEvent_pl pl)\<lparr> sysexData := None \<rparr> \<rparr>))
      else pl)"
  by pat_completeness auto
termination
proof (relation "measure (\<lambda>(t, n, pl). 50000 - unat n)")
  show "wf (measure (\<lambda>(t, n, pl). 50000 - unat n))" by simp
next
  fix targetTicks eventsProcessed :: uint32_t and pl :: MidiPlayer
  assume "eventReady_pl pl \<and> absoluteTime (nextEvent_pl pl) \<le> targetTicks
          \<and> eventsProcessed < MAX_EVENTS_PER_FF"
  then have lt: "unat eventsProcessed < 50000"
    by (simp add: MAX_EVENTS_PER_FF_def word_less_nat_alt)
  then have "unat (eventsProcessed + 1) = unat eventsProcessed + 1"
    by (simp add: unat_word_ariths)
  with lt show "((targetTicks, eventsProcessed + 1,
                  readNextEvent_pl (pl\<lparr> nextEvent_pl := (nextEvent_pl pl)\<lparr> sysexData := None \<rparr> \<rparr>)),
                 (targetTicks, eventsProcessed, pl))
                \<in> measure (\<lambda>(t, n, pl). 50000 - unat n)"
    by simp
qed

declare fastForward_loop.simps [simp del]

text \<open>
  \<open>fastForward\<close>. The target is the position plus the converted time, computed in
  \<open>uint32_t\<close> and limited to the file length; the middle part of the function skips to
  it and sets \<open>ticksElapsed = targetTicks\<close> whatever the loop consumed. Playback is
  paused before and resumed after when it was running.
\<close>

definition fastForward_target :: "uint32_t \<Rightarrow> MidiPlayer \<Rightarrow> uint32_t" where
  "fastForward_target milliseconds pl =
     (let targetTicks = ticksElapsed pl + millisecondsToTicks milliseconds pl;
          maxTicks = fileLengthTicks (parser pl)
      in if targetTicks > maxTicks then maxTicks else targetTicks)"

definition fastForward_seek :: "uint32_t \<Rightarrow> uint32_t \<Rightarrow> MidiPlayer \<Rightarrow> MidiPlayer" where
  "fastForward_seek milliseconds now pl =
     (let targetTicks = fastForward_target milliseconds pl
      in (fastForward_loop targetTicks 0 pl)
           \<lparr> ticksElapsed := targetTicks, lastUpdateMicros := now \<rparr>)"

definition fastForward ::
  "uint32_t \<Rightarrow> uint32_t \<Rightarrow> MidiPlayer \<Rightarrow> (MidiMessage list \<times> MidiPlayer) option" where
  "fastForward milliseconds now pl =
     (let wasPlaying = (state pl = STATE_PLAYING)
      in case (if wasPlaying then pause pl else Some ([], pl)) of
           None \<Rightarrow> None
         | Some (m1, pl1) \<Rightarrow>
             let m2 = stopAllNotes pl1;
                 pl3 = fastForward_seek milliseconds now pl1;
                 m3 = stopAllNotes pl3
             in (case (if wasPlaying then play now pl3 else Some ([], pl3)) of
                   None \<Rightarrow> None
                 | Some (m4, pl4) \<Rightarrow> Some (m1 @ m2 @ m3 @ m4, pl4)))"

section \<open>The length cache of main.cpp\<close>

text \<open>
  \<open>struct FileLengthCacheEntry\<close> and the static array \<open>lengthCache\<close> with its count
  \<open>cacheSize\<close>: the list holds the entries \<open>lengthCache[0 .. cacheSize - 1]\<close>. A file
  name is the characters of the C string before its terminator.
\<close>

record FileLengthCacheEntry =
  filename :: string
  modtime :: uint32_t
  lengthTicks :: uint32_t
  sysexCount_entry :: uint16_t

record LengthCache =
  lengthCache :: "FileLengthCacheEntry list"
  cacheLoaded :: bool

definition MAX_CACHE_ENTRIES :: nat where "MAX_CACHE_ENTRIES = 500"

text \<open>\<open>strncpy(dst, filename, 63); dst[63] = '\0'\<close>.\<close>

definition strncpy63 :: "string \<Rightarrow> string" where
  "strncpy63 s = take 63 s"

text \<open>
  \<open>loadLengthCache\<close> reads the cache file from the card. The card is outside the
  model: \<open>onCard\<close> is the list of the well-formed lines (name, modification time,
  length, SysEx count) that follow a matching version line, and is empty when the file
  is missing or its version differs. \<open>saveLengthCache\<close> only writes to the card and
  changes neither the array nor the two statics.
\<close>

definition loadLengthCache :: "FileLengthCacheEntry list \<Rightarrow> LengthCache" where
  "loadLengthCache onCard =
     \<lparr> lengthCache = map (\<lambda>e. e\<lparr> filename := strncpy63 (filename e) \<rparr>)
                         (take MAX_CACHE_ENTRIES onCard),
       cacheLoaded = True \<rparr>"

definition ensureLoaded :: "FileLengthCacheEntry list \<Rightarrow> LengthCache \<Rightarrow> LengthCache" where
  "ensureLoaded onCard c = (if \<not> cacheLoaded c then loadLengthCache onCard else c)"

text \<open>
  \<open>getCachedFileLength\<close>: the first entry with the name decides. The result is the
  returned length (0 for "not cached") and the value behind \<open>outSysexCount\<close>, which
  is \<open>None\<close> for a null pointer and is written only on a hit.
\<close>

fun searchCache ::
  "FileLengthCacheEntry list \<Rightarrow> string \<Rightarrow> uint32_t \<Rightarrow> uint16_t option
     \<Rightarrow> uint32_t \<times> uint16_t option" where
  "searchCache [] name mt out = (0, out)"
| "searchCache (e # es) name mt out =
     (if filename e = name then
        (if modtime e = mt then
           (lengthTicks e, (case out of None \<Rightarrow> None | Some _ \<Rightarrow> Some (sysexCount_entry e)))
         else (0, out))
      else searchCache es name mt out)"

definition getCachedFileLength ::
  "string \<Rightarrow> uint32_t \<Rightarrow> uint16_t option \<Rightarrow> FileLengthCacheEntry list \<Rightarrow> LengthCache
     \<Rightarrow> (uint32_t \<times> uint16_t option) \<times> LengthCache" where
  "getCachedFileLength name mt out onCard c =
     (let c1 = ensureLoaded onCard c
      in (searchCache (lengthCache c1) name mt out, c1))"

text \<open>
  \<open>cacheFileLength\<close>: an entry with the name is overwritten in place; otherwise the
  entry is appended, after the oldest was dropped when all \<open>MAX_CACHE_ENTRIES\<close> slots
  are taken.
\<close>

fun updateEntry ::
  "string \<Rightarrow> uint32_t \<Rightarrow> uint32_t \<Rightarrow> uint16_t \<Rightarrow> FileLengthCacheEntry list
     \<Rightarrow> FileLengthCacheEntry list option" where
  "updateEntry name mt len sx [] = None"
| "updateEntry name mt len sx (e # es) =
     (if filename e = name then
        Some (e\<lparr> modtime := mt, lengthTicks := len, sysexCount_entry := sx \<rparr> # es)
      else map_option ((#) e) (updateEntry name mt len sx es))"

definition cacheFileLength ::
  "string \<Rightarrow> uint32_t \<Rightarrow> uint32_t \<Rightarrow> uint16_t \<Rightarrow> FileLengthCacheEntry list \<Rightarrow> LengthCache
     \<Rightarrow> LengthCache" where
  "cacheFileLength name mt len sx onCard c =
     (let c1 = ensureLoaded onCard c;
          new = \<lparr> filename = strncpy63 name, modtime = mt, lengthTicks = len,
                  sysexCount_entry = sx \<rparr>
      in case updateEntry name mt len sx (lengthCache c1) of
           Some es \<Rightarrow> c1\<lparr> lengthCache := es \<rparr>
         | None \<Rightarrow>
             if length (lengthCache c1) < MAX_CACHE_ENTRIES then
               c1\<lparr> lengthCache := lengthCache c1 @ [new] \<rparr>
             else
               c1\<lparr> lengthCache :=
                     take (MAX_CACHE_ENTRIES - 1) (tl (lengthCache c1)) @ [new]
                       @ drop MAX_CACHE_ENTRIES (lengthCache c1) \<rparr>)"

section \<open>Notions used in the statements\<close>

text \<open>
  The velocity rule in the words of the specification, on natural numbers:
  \<open>v' = v * globalVelocityPct * 2 / 100\<close>, then \<open>v' = v' * channelVelocityPct / 100\<close>
  iff that override is not zero, then the clamp to 1..127.
\<close>

definition velocityFormula :: "nat \<Rightarrow> nat \<Rightarrow> nat \<Rightarrow> nat" where
  "velocityFormula v scale cv =
     (let v1 = (v * scale * 2) div 100;
          v2 = (if cv \<noteq> 0 then (v1 * cv) div 100 else v1)
      in max 1 (min 127 v2))"

text \<open>The outgoing channel (1 to 16), after routing.\<close>

definition outChannel :: "MidiEvent \<Rightarrow> MidiPlayer \<Rightarrow> uint8_t" where
  "outChannel event pl =
     (let routing = userChannelRouting pl ! unat (channel event)
      in if routing \<noteq> 255 then routing + 1 else channel event + 1)"

text \<open>Sample inputs.\<close>

definition ev_NoteOn_101 :: MidiEvent where
  "ev_NoteOn_101 = MidiEvent_new\<lparr> type := 0x90, channel := 2, data1 := 60, data2 := 101 \<rparr>"

text \<open>
  The operations of the player that are modelled, as data, so that a statement can range
  over every sequence of calls. \<open>runOps\<close> performs a sequence and keeps the final state.
\<close>

datatype PlayerOp =
    Op_play uint32_t
  | Op_pause
  | Op_stop bool
  | Op_loadFile "FatFile option"
  | Op_sendMidiEvent MidiEvent
  | Op_setTempoPercent uint16_t
  | Op_setVelocityScale uint8_t
  | Op_muteChannel uint8_t
  | Op_unmuteChannel uint8_t
  | Op_toggleMuteChannel uint8_t
  | Op_fastForward uint32_t uint32_t

fun applyOp :: "PlayerOp \<Rightarrow> MidiPlayer \<Rightarrow> (MidiMessage list \<times> MidiPlayer) option" where
  "applyOp (Op_play now) pl = play now pl"
| "applyOp Op_pause pl = pause pl"
| "applyOp (Op_stop r) pl = stop r pl"
| "applyOp (Op_loadFile file) pl = map_option snd (loadFile file pl)"
| "applyOp (Op_sendMidiEvent event) pl = sendMidiEvent event pl"
| "applyOp (Op_setTempoPercent percent) pl = map_option (Pair []) (setTempoPercent percent pl)"
| "applyOp (Op_setVelocityScale scale) pl = Some ([], setVelocityScale scale pl)"
| "applyOp (Op_muteChannel ch) pl = Some (muteChannel ch pl)"
| "applyOp (Op_unmuteChannel ch) pl = Some ([], unmuteChannel ch pl)"
| "applyOp (Op_toggleMuteChannel ch) pl = Some (toggleMuteChannel ch pl)"
| "applyOp (Op_fastForward ms now) pl = fastForward ms now pl"

fun runOps :: "PlayerOp list \<Rightarrow> MidiPlayer \<Rightarrow> MidiPlayer option" where
  "runOps [] pl = Some pl"
| "runOps (op # ops) pl =
     (case applyOp op pl of None \<Rightarrow> None | Some (_, pl') \<Rightarrow> runOps ops pl')"

definition unmutes :: "uint8_t \<Rightarrow> PlayerOp \<Rightarrow> bool" where
  "unmutes c op = (op = Op_unmuteChannel c \<or> op = Op_toggleMuteChannel c)"

definition muteBit :: "uint8_t \<Rightarrow> MidiPlayer \<Rightarrow> bool" where
  "muteBit c pl = ((ucast (channelMutes pl) AND push_bit (unat c) (1 :: uint32_t)) \<noteq> 0)"

text \<open>CC 123 with value 0 on channels 1 to 16, in this order.\<close>

definition allNotesOffMessages :: "MidiMessage list" where
  "allNotesOffMessages = map (\<lambda>ch. ControlChange (word_of_nat ch) 123 0) [1..<17]"

definition pl_late :: MidiPlayer where
  "pl_late = (MidiPlayer_new True [])\<lparr> state := STATE_PAUSED, microsecondsPerTick := 1,
     ticksElapsed := 0xFFFFFFF0, eventReady_pl := True,
     nextEvent_pl := MidiEvent_new\<lparr> absoluteTime := 0xFFFFFFF8, type := 0x90, data1 := 60,
                                    data2 := 100 \<rparr>,
     parser := (MidiFileParser_new [])\<lparr> fileLengthTicks := 0xFFFFFFFF \<rparr> \<rparr>"

text \<open>
  The two answers of a cache lookup: the stored pair, with the SysEx count written through
  the out-pointer if there is one, and "not cached", which returns 0 and leaves the
  out-value alone.
\<close>

definition found :: "uint32_t \<Rightarrow> uint16_t \<Rightarrow> uint16_t option \<Rightarrow> uint32_t \<times> uint16_t option" where
  "found len sx out = (len, map_option (\<lambda>_. sx) out)"

definition absent :: "uint16_t option \<Rightarrow> uint32_t \<times> uint16_t option" where
  "absent out = (0, out)"

definition names_distinct :: "LengthCache \<Rightarrow> bool" where
  "names_distinct c = distinct (map filename (lengthCache c))"

definition newEntry :: "string \<Rightarrow> uint32_t \<Rightarrow> uint32_t \<Rightarrow> uint16_t \<Rightarrow> FileLengthCacheEntry" where
  "newEntry name mt len sx =
     \<lparr> filename = strncpy63 name, modtime = mt, lengthTicks = len, sysexCount_entry = sx \<rparr>"

definition file_S1 :: FatFile where
  "file_S1 = \<lparr> contents = [0x4D, 0x54, 0x68, 0x64, 0, 0, 0, 6, 0, 0, 0, 1, 0, 0x60,
      0x4D, 0x54, 0x72, 0x6B, 0, 0, 0, 12,
      0x00, 0x90, 0x3C, 0x64, 0x60, 0x80, 0x3C, 0x40, 0x00, 0xFF, 0x2F, 0x00], curPosition = 0 \<rparr>"

definition ev_CC_ch3 :: MidiEvent where
  "ev_CC_ch3 = MidiEvent_new\<lparr> type := 0xB0, channel := 3, data1 := 64, data2 := 127 \<rparr>"

definition ev_NoteOn_ch3 :: MidiEvent where
  "ev_NoteOn_ch3 = MidiEvent_new\<lparr> type := 0x90, channel := 3, data1 := 60, data2 := 100 \<rparr>"

definition ops_ch3 :: "PlayerOp list" where
  "ops_ch3 = [Op_muteChannel 1, Op_unmuteChannel 1, Op_setVelocityScale 60]"

definition pl_muted3 :: MidiPlayer where
  "pl_muted3 = (MidiPlayer_new True [])\<lparr> channelMutes := 8, velocityScale := 60 \<rparr>"

definition pl_playing :: MidiPlayer where
  "pl_playing = (MidiPlayer_new True [])\<lparr> state := STATE_PLAYING, clockEnabled := True,
     ticksElapsed := 7, parser := (MidiFileParser_new [])\<lparr> midiFile := Some file_S1 \<rparr> \<rparr>"

definition pl_stopped :: MidiPlayer where
  "pl_stopped = (MidiPlayer_new True [])\<lparr> ticksElapsed := 5, clockEnabled := True \<rparr>"

definition cache_one :: LengthCache where
  "cache_one = \<lparr> lengthCache = [\<lparr> filename = ''other.mid'', modtime = 3, lengthTicks = 480,
                                   sysexCount_entry = 0 \<rparr>], cacheLoaded = True \<rparr>"

definition card_dup :: "FileLengthCacheEntry list" where
  "card_dup = [\<lparr> filename = ''a.mid'', modtime = 1, lengthTicks = 100, sysexCount_entry = 0 \<rparr>,
               \<lparr> filename = ''a.mid'', modtime = 2, lengthTicks = 200, sysexCount_entry = 0 \<rparr>]"

text \<open>Fields of the track that the byte-level reads leave alone.\<close>

definition same_ticks :: "TrackState \<Rightarrow> TrackState \<Rightarrow> bool" where
  "same_ticks t t' = (currentTick t' = currentTick t \<and> endOfTrack t' = endOfTrack t
     \<and> trackEndPos t' = trackEndPos t \<and> trackStartPos t' = trackStartPos t
     \<and> nextEvent t' = nextEvent t \<and> eventReady t' = eventReady t)"

definition same_time :: "MidiEvent \<Rightarrow> MidiEvent \<Rightarrow> bool" where
  "same_time e e' = (deltaTime e' = deltaTime e \<and> absoluteTime e' = absoluteTime e)"

definition live :: "TrackState \<Rightarrow> bool" where
  "live t = (eventReady t \<and> \<not> endOfTrack t)"

definition track_ok :: "TrackState \<Rightarrow> bool" where
  "track_ok t = (live t \<longrightarrow> absoluteTime (nextEvent t) = currentTick t)"

definition streamInv :: "MidiFileParser \<Rightarrow> bool" where
  "streamInv p = (length (tracks p) = MAX_TRACKS \<and> unat (numTracks p) \<le> MAX_TRACKS
     \<and> (\<forall>t \<in> set (tracks p). track_ok t))"

definition nextTime :: "MidiFileParser \<Rightarrow> nat \<Rightarrow> uint32_t" where
  "nextTime p i = absoluteTime (nextEvent (tracks p ! i))"

definition candidate :: "MidiFileParser \<Rightarrow> nat \<Rightarrow> bool" where
  "candidate p i = (live (tracks p ! i) \<and> nextTime p i < 0xFFFFFFFF)"

definition candidateTracks :: "MidiFileParser \<Rightarrow> nat list" where
  "candidateTracks p = filter (candidate p) [0..<unat (numTracks p)]"

definition earliestOf :: "MidiFileParser \<Rightarrow> nat \<Rightarrow> bool" where
  "earliestOf p i = (i \<in> set (candidateTracks p)
     \<and> (\<forall>j \<in> set (candidateTracks p).
           nextTime p i \<le> nextTime p j \<and> (nextTime p j = nextTime p i \<longrightarrow> i \<le> j)))"

definition earliest_upto :: "MidiFileParser \<Rightarrow> nat \<Rightarrow> uint8_t \<times> uint32_t" where
  "earliest_upto p k = fold (earliestStep p) (map word_of_nat [0..<k]) (0xFF, 0xFFFFFFFF)"

definition earliest_among :: "MidiFileParser \<Rightarrow> nat \<Rightarrow> nat \<Rightarrow> bool" where
  "earliest_among p k i = (i < k \<and> candidate p i
     \<and> (\<forall>j<k. candidate p j \<longrightarrow>
           nextTime p i \<le> nextTime p j \<and> (nextTime p j = nextTime p i \<longrightarrow> i \<le> j)))"

definition refill :: "nat \<Rightarrow> MidiFileParser \<Rightarrow> MidiFileParser" where
  "refill i p =
     (case readTrackEvent (word_of_nat i) p of
        (ok, p1) \<Rightarrow> p1\<lparr> tracks := (tracks p1)[i := (tracks p1 ! i)\<lparr> eventReady := ok \<rparr>] \<rparr>)"


text \<open>A track whose buffer holds the given bytes, all of them still to be read.\<close>

definition track_with :: "uint8_t list \<Rightarrow> TrackState" where
  "track_with bs = TrackState_zero\<lparr> trackEndPos := word_of_nat (length bs), buffer := bs,
                                     bufferSize := word_of_nat (length bs) \<rparr>"

definition file_none :: FatFile where
  "file_none = \<lparr> contents = [], curPosition = 0 \<rparr>"



text \<open>The track \<open>track_with bs\<close> after \<open>n\<close> of its bytes were read.\<close>

definition after_bytes :: "nat \<Rightarrow> uint8_t list \<Rightarrow> TrackState" where
  "after_bytes n bs = (track_with bs)\<lparr> bufferPos := word_of_nat n, filePosition := word_of_nat n \<rparr>"

text \<open>
  Three files: a one-track file that declares format 2, the same file as format 1 with
  division 0, and a file that starts with \<open>"RIFF"\<close>.
\<close>

definition file_format2 :: FatFile where
  "file_format2 = \<lparr> contents = [0x4D, 0x54, 0x68, 0x64, 0, 0, 0, 6, 0, 2, 0, 1, 0, 0x60,
      0x4D, 0x54, 0x72, 0x6B, 0, 0, 0, 12,
      0x00, 0x90, 0x3C, 0x64, 0x60, 0x80, 0x3C, 0x40, 0x00, 0xFF, 0x2F, 0x00], curPosition = 0 \<rparr>"

definition file_division0 :: FatFile where
  "file_division0 = \<lparr> contents = [0x4D, 0x54, 0x68, 0x64, 0, 0, 0, 6, 0, 1, 0, 1, 0, 0,
      0x4D, 0x54, 0x72, 0x6B, 0, 0, 0, 12,
      0x00, 0x90, 0x3C, 0x64, 0x60, 0x80, 0x3C, 0x40, 0x00, 0xFF, 0x2F, 0x00], curPosition = 0 \<rparr>"

text \<open>
  The verdict of \<open>open\<close> on a file, from a new parser, with the format, the division and
  the track count it leaves in the parser.
\<close>

definition opened :: "FatFile \<Rightarrow> bool \<times> uint16_t \<times> uint16_t \<times> uint8_t" where
  "opened f = (case MidiFileParser_open (Some f) (MidiFileParser_new []) of
                 (ok, p) \<Rightarrow> (ok, format (fileInfo p), ticksPerQuarter (fileInfo p), numTracks p))"

definition file_riff :: FatFile where
  "file_riff = \<lparr> contents = [0x52, 0x49, 0x46, 0x46, 0, 0, 0, 6, 0, 1, 0, 1, 0, 0x60],
                 curPosition = 0 \<rparr>"

text \<open>The byte at a position of the file, 0 past its end (what \<open>read8\<close> answers there).\<close>

definition byteAt :: "FatFile \<Rightarrow> nat \<Rightarrow> uint8_t" where
  "byteAt f i = (if i < length (contents f) then contents f ! i else 0)"

text \<open>
  The value that the loop of \<open>readTrackVariableLength\<close> builds from a sequence of bytes:
  each byte shifts the 32-bit accumulator by seven bits and adds its low seven bits.
\<close>

definition vlqStep :: "uint32_t \<Rightarrow> uint8_t \<Rightarrow> uint32_t" where
  "vlqStep v byte = push_bit 7 v OR ucast (byte AND 0x7F)"

definition vlqValue :: "uint8_t list \<Rightarrow> uint32_t" where
  "vlqValue bs = foldl vlqStep 0 bs"

text \<open>
  A one-track file whose first delta time is written with five continuation bytes, followed
  by a NoteOn, a NoteOff 96 ticks later and the end of the track.
\<close>

definition file_longVlq :: FatFile where
  "file_longVlq = \<lparr> contents = [0x4D, 0x54, 0x68, 0x64, 0, 0, 0, 6, 0, 0, 0, 1, 0, 0x60,
      0x4D, 0x54, 0x72, 0x6B, 0, 0, 0, 17,
      0x81, 0x80, 0x80, 0x80, 0x80, 0x00, 0x90, 0x3C, 0x64,
      0x60, 0x80, 0x3C, 0x40, 0x00, 0xFF, 0x2F, 0x00], curPosition = 0 \<rparr>"

text \<open>
  Track 0 after \<open>open\<close>: the verdict of \<open>open\<close>, \<open>endOfTrack\<close>, \<open>eventReady\<close>, the
  bytes of the track consumed so far, and delta time, type and first data byte of the event
  read ahead.
\<close>

definition firstTrackAfterOpen ::
  "FatFile \<Rightarrow> bool \<times> bool \<times> bool \<times> uint32_t \<times> uint32_t \<times> uint8_t \<times> uint8_t" where
  "firstTrackAfterOpen f =
     (case MidiFileParser_open (Some f) (MidiFileParser_new []) of
        (ok, p) \<Rightarrow>
          let t = tracks p ! 0
          in (ok, endOfTrack t, eventReady t, filePosition t, deltaTime (nextEvent t),
              type (nextEvent t), data1 (nextEvent t)))"

text \<open>The events that the first \<open>n\<close> calls of \<open>readNextEvent\<close> return after \<open>open\<close>.\<close>

fun readEvents :: "nat \<Rightarrow> MidiEvent \<Rightarrow> MidiFileParser \<Rightarrow> MidiEvent list" where
  "readEvents 0 e p = []"
| "readEvents (Suc n) e p =
     (case readNextEvent e p of
        (ok, e', p') \<Rightarrow> if ok then e' # readEvents n e' p' else [])"

definition eventsOf :: "nat \<Rightarrow> FatFile \<Rightarrow> (uint32_t \<times> uint8_t \<times> uint8_t) list" where
  "eventsOf n f =
     (case MidiFileParser_open (Some f) (MidiFileParser_new []) of
        (ok, p) \<Rightarrow> map (\<lambda>e. (absoluteTime e, type e, data1 e)) (readEvents n MidiEvent_new p))"

section \<open>Tempo arithmetic\<close>

text \<open>
  C3. For a tempo percentage between 500 and 2000 tenth-percent, a positive division and a
  stored tempo between 100000 and 10000000 microseconds per quarter note,
  \<open>calculateMicrosecondsPerTick\<close> succeeds and stores exactly
  \<open>floor ((tempo * 1000) / (tempoPercent * division))\<close>: neither the 64-bit product nor
  the cast back to 32 bits loses anything, and \<open>setTempoPercent\<close> with a value in that
  range computes the same.
\<close>

theorem calculateMicrosecondsPerTick_exact:
  assumes "500 \<le> tempoPercent pl" and "tempoPercent pl \<le> 2000"
    and "0 < ticksPerQuarter (fileInfo (parser pl))"
    and "100000 \<le> tempo (fileInfo (parser pl))"
    and "tempo (fileInfo (parser pl)) \<le> 10000000"
  shows "\<exists>pl'. calculateMicrosecondsPerTick pl = Some pl'
           \<and> setTempoPercent (tempoPercent pl) pl = Some pl'
           \<and> pl' = pl\<lparr> microsecondsPerTick := microsecondsPerTick pl' \<rparr>
           \<and> unat (microsecondsPerTick pl') =
               (unat (tempo (fileInfo (parser pl))) * 1000)
                 div (unat (tempoPercent pl) * unat (ticksPerQuarter (fileInfo (parser pl))))"
proof -
  let ?t = "tempo (fileInfo (parser pl))"
  let ?tp = "tempoPercent pl"
  let ?d = "ticksPerQuarter (fileInfo (parser pl))"
  have tp: "500 \<le> unat ?tp" "unat ?tp \<le> 2000"
    using assms(1,2) by (simp_all add: word_le_nat_alt)
  have t: "unat ?t \<le> 10000000"
    using assms(5) by (simp add: word_le_nat_alt)
  have u1: "unat (ucast ?t :: uint64_t) = unat ?t"
    using t by (simp add: unsigned_ucast_eq take_bit_nat_eq_self)
  have u2: "unat (ucast ?tp :: uint64_t) = unat ?tp"
    using tp by (simp add: unsigned_ucast_eq take_bit_nat_eq_self)
  have u3: "unat (ucast ?d :: uint32_t) = unat ?d"
    using unsigned_less [of ?d, where 'a = nat]
    by (simp add: unsigned_ucast_eq take_bit_nat_eq_self)
  have a: "unat ((ucast ?t :: uint64_t) * 1000) = unat ?t * 1000"
    using t by (simp add: unat_word_ariths u1)
  have b: "unat (((ucast ?t :: uint64_t) * 1000) div ucast ?tp) = (unat ?t * 1000) div unat ?tp"
    by (simp add: unat_div a u2)
  have "(unat ?t * 1000) div unat ?tp \<le> unat ?t * 1000 div 500"
    using tp by (intro div_le_mono2) auto
  then have c: "(unat ?t * 1000) div unat ?tp < 2 ^ 32"
    using t by simp
  have d: "unat (ucast (((ucast ?t :: uint64_t) * 1000) div ucast ?tp) :: uint32_t)
           = (unat ?t * 1000) div unat ?tp"
    using c b by (simp add: unsigned_ucast_eq take_bit_nat_eq_self)
  have e: "unat ((ucast (((ucast ?t :: uint64_t) * 1000) div ucast ?tp) :: uint32_t) div ucast ?d)
           = (unat ?t * 1000) div (unat ?tp * unat ?d)"
    by (simp add: unat_div d u3 div_mult2_eq)
  have nz: "?tp \<noteq> 0" "?d \<noteq> 0"
    using assms(1,3) by auto
  have clamp: "(if (if ?tp < 500 then 500 else ?tp) > 2000 then 2000
                else (if ?tp < 500 then 500 else ?tp)) = ?tp"
    using assms(1,2) by (auto simp: not_le [symmetric])
  have same: "setTempoPercent ?tp pl = calculateMicrosecondsPerTick pl"
    unfolding setTempoPercent_def Let_def clamp by simp
  show ?thesis
    using nz e same by (simp add: calculateMicrosecondsPerTick_def Let_def)
qed

theorem calculateMicrosecondsPerTick_exact_witness:
  "calculateMicrosecondsPerTick
     ((MidiPlayer_new True [])\<lparr> tempoPercent := 1000,
        parser := (MidiFileParser_new [])\<lparr> fileInfo :=
          (fileInfo (MidiFileParser_new []))\<lparr> ticksPerQuarter := 96 \<rparr> \<rparr> \<rparr>) \<noteq> None"
proof -
  let ?pl = "(MidiPlayer_new True [])\<lparr> tempoPercent := 1000,
        parser := (MidiFileParser_new [])\<lparr> fileInfo :=
          (fileInfo (MidiFileParser_new []))\<lparr> ticksPerQuarter := 96 \<rparr> \<rparr> \<rparr>"
  have h1: "500 \<le> tempoPercent ?pl" by (simp add: MidiPlayer_new_def)
  have h2: "tempoPercent ?pl \<le> 2000" by (simp add: MidiPlayer_new_def)
  have h3: "0 < ticksPerQuarter (fileInfo (parser ?pl))" by (simp add: MidiPlayer_new_def)
  have h4: "100000 \<le> tempo (fileInfo (parser ?pl))"
    by (simp add: MidiPlayer_new_def MidiFileParser_new_def)
  have h5: "tempo (fileInfo (parser ?pl)) \<le> 10000000"
    by (simp add: MidiPlayer_new_def MidiFileParser_new_def)
  from calculateMicrosecondsPerTick_exact [OF h1 h2 h3 h4 h5]
  show ?thesis by auto
qed

section \<open>Velocity scaling\<close>

lemma unat_ucast_8_32: "unat (ucast (w :: uint8_t) :: uint32_t) = unat w"
  using unsigned_less [of w, where 'a = nat]
  by (simp add: unsigned_ucast_eq take_bit_nat_eq_self)

lemma unat_ucast_16_32: "unat (ucast (w :: uint16_t) :: uint32_t) = unat w"
  using unsigned_less [of w, where 'a = nat]
  by (simp add: unsigned_ucast_eq take_bit_nat_eq_self)

lemma unat8_le: "unat (w :: uint8_t) \<le> 255"
  using unsigned_less [of w, where 'a = nat] by simp

lemma unat_scaledVelocity:
  "unat (scaledVelocity event pl) =
     velocityFormula (unat (data2 event)) (unat (velocityScale pl))
       (unat (channelVelocities pl ! unat (channel event)))"
proof -
  let ?d = "data2 event" and ?s = "velocityScale pl"
  let ?cv = "channelVelocities pl ! unat (channel event)"
  let ?p = "(ucast ?d :: uint32_t) * ucast ?s * 2"
  let ?n1 = "(unat ?d * unat ?s * 2) div 100"
  have b: "unat ?d * unat ?s \<le> 255 * 255"
    using unat8_le [of ?d] unat8_le [of ?s] by (intro mult_mono) auto
  have p0: "unat ((ucast ?d :: uint32_t) * ucast ?s) = unat ?d * unat ?s"
    using b by (simp add: unat_word_ariths unat_ucast_8_32)
  have p: "unat ?p = unat ?d * unat ?s * 2"
    using b by (simp add: unat_word_ariths(2) [of _ 2] p0)
  have q: "unat (?p div 100) = ?n1" by (simp add: unat_div p)
  have n1: "?n1 \<le> 1300" using b by simp
  let ?v1 = "(ucast (?p div 100) :: uint16_t)"
  have v1: "unat ?v1 = ?n1"
    using n1 q by (simp add: unsigned_ucast_eq take_bit_nat_eq_self)
  let ?n2 = "(?n1 * unat ?cv) div 100"
  have b2: "?n1 * unat ?cv \<le> 1300 * 255"
    using n1 unat8_le [of ?cv] by (intro mult_mono) auto
  have p2: "unat ((ucast ?v1 :: uint32_t) * ucast ?cv) = ?n1 * unat ?cv"
    using b2 by (simp add: unat_word_ariths unat_ucast_8_32 unat_ucast_16_32 v1)
  have q2: "unat (((ucast ?v1 :: uint32_t) * ucast ?cv) div 100) = ?n2"
    by (simp add: unat_div p2)
  have n2: "?n2 \<le> 3315" using b2 by simp
  let ?v2 = "(ucast (((ucast ?v1 :: uint32_t) * ucast ?cv) div 100) :: uint16_t)"
  have v2: "unat ?v2 = ?n2"
    using n2 q2 by (simp add: unsigned_ucast_eq take_bit_nat_eq_self)
  have cv0: "(?cv \<noteq> 0) = (unat ?cv \<noteq> 0)" by (simp add: unat_eq_0)
  show ?thesis
    unfolding scaledVelocity_def velocityFormula_def Let_def cv0
    using v1 v2
    by (auto simp add: word_less_nat_alt word_le_nat_alt not_less max_def min_def)
qed

lemma word_of_int_le_127:
  fixes n :: int
  assumes "0 \<le> n" and "n \<le> 127"
  shows "(word_of_int n :: uint8_t) \<le> 127"
proof -
  have "take_bit 8 n = n" using assms by (simp add: take_bit_int_eq_self)
  then have "uint (word_of_int n :: uint8_t) = n" by (simp add: uint_word_of_int_eq)
  then show ?thesis using assms by (simp add: word_le_def)
qed

lemma transposedNote_le: "transposedNote event pl \<le> 127"
proof -
  define n where "n = uint (data1 event) + sint (userChannelTranspose pl ! unat (channel event))"
  have "transposedNote event pl = (if n < 0 then 0 else if n > 127 then 127 else word_of_int n)"
    unfolding transposedNote_def n_def Let_def ..
  then show ?thesis
    using word_of_int_le_127 [of n] by auto
qed

text \<open>
  C2. A NoteOn that passes the gates (an output is attached, the event is a channel
  event on a channel below 16 that is not muted) is sent on the routed channel with the
  transposed note. With velocity 0 it is sent as a NoteOff with velocity 0. Otherwise
  its velocity is the exact integer formula of the specification, for every velocity
  scale and every channel factor: no intermediate result overflows and no special case
  is made for a scale of 50. When the routed channel is a MIDI channel the message is
  really emitted.
\<close>

theorem sendMidiEvent_NoteOn:
  assumes "midiOut pl" and "\<not> isMetaEvent event" and "channel event < 16"
    and "type event = MIDI_NOTE_ON" and "\<not> channelMuted event pl"
  shows "(data2 event = 0 \<longrightarrow>
            sendMidiEvent event pl
              = Some (sendNoteOff (outChannel event pl) (transposedNote event pl) 0, pl)
            \<and> (1 \<le> outChannel event pl \<and> outChannel event pl \<le> 16 \<longrightarrow>
                 sendNoteOff (outChannel event pl) (transposedNote event pl) 0
                   = [NoteOff (outChannel event pl) (transposedNote event pl) 0]))
       \<and> (data2 event \<noteq> 0 \<longrightarrow>
            (\<exists>vel. sendMidiEvent event pl
                     = Some (sendNoteOn (outChannel event pl) (transposedNote event pl) vel, pl)
                 \<and> unat vel = velocityFormula (unat (data2 event)) (unat (velocityScale pl))
                                (unat (channelVelocities pl ! unat (channel event)))
                 \<and> (1 \<le> outChannel event pl \<and> outChannel event pl \<le> 16 \<longrightarrow>
                      sendNoteOn (outChannel event pl) (transposedNote event pl) vel
                        = [NoteOn (outChannel event pl) (transposedNote event pl) vel])))"
proof -
  let ?vel = "ucast (scaledVelocity event pl) :: uint8_t"
  have ch: "\<not> channel event \<ge> 16" using assms(3) by (simp add: not_le)
  have ty: "type event \<noteq> MIDI_NOTE_OFF" using assms(4) by (simp add: midi_consts)
  have f: "unat (scaledVelocity event pl)
           = velocityFormula (unat (data2 event)) (unat (velocityScale pl))
               (unat (channelVelocities pl ! unat (channel event)))"
    by (rule unat_scaledVelocity)
  have "velocityFormula (unat (data2 event)) (unat (velocityScale pl))
               (unat (channelVelocities pl ! unat (channel event))) \<le> 127"
    by (simp add: velocityFormula_def Let_def)
  then have le: "unat (scaledVelocity event pl) \<le> 127" using f by simp
  then have uv: "unat ?vel = unat (scaledVelocity event pl)"
    by (simp add: unsigned_ucast_eq take_bit_nat_eq_self)
  have v127: "?vel \<le> 127" using le uv by (simp add: word_le_nat_alt)
  have off: "data2 event = 0 \<Longrightarrow> sendMidiEvent event pl
              = Some (sendNoteOff (outChannel event pl) (transposedNote event pl) 0, pl)"
    using assms ch ty by (simp add: sendMidiEvent_def outChannel_def Let_def)
  have on: "data2 event \<noteq> 0 \<Longrightarrow> sendMidiEvent event pl
              = Some (sendNoteOn (outChannel event pl) (transposedNote event pl) ?vel, pl)"
    using assms ch ty by (simp add: sendMidiEvent_def outChannel_def Let_def)
  have m1: "1 \<le> outChannel event pl \<and> outChannel event pl \<le> 16 \<Longrightarrow>
        sendNoteOff (outChannel event pl) (transposedNote event pl) 0
          = [NoteOff (outChannel event pl) (transposedNote event pl) 0]"
    using transposedNote_le [of event pl] by (auto simp add: sendNoteOff_def not_less [symmetric])
  have m2: "1 \<le> outChannel event pl \<and> outChannel event pl \<le> 16 \<Longrightarrow>
        sendNoteOn (outChannel event pl) (transposedNote event pl) ?vel
          = [NoteOn (outChannel event pl) (transposedNote event pl) ?vel]"
    using transposedNote_le [of event pl] v127
    by (auto simp add: sendNoteOn_def not_less [symmetric])
  show ?thesis
    using off on m1 m2 uv f by auto
qed

theorem sendMidiEvent_NoteOn_witness:
  "map_option fst (sendMidiEvent ev_NoteOn_101 (setVelocityScale 45 (MidiPlayer_new True [])))
     = Some [NoteOn 3 60 90]"
proof -
  let ?pl = "setVelocityScale 45 (MidiPlayer_new True [])"
  have h1: "midiOut ?pl" by (simp add: setVelocityScale_def MidiPlayer_new_def)
  have h2: "\<not> isMetaEvent ev_NoteOn_101" by (simp add: ev_NoteOn_101_def MidiEvent_new_def)
  have h3: "channel ev_NoteOn_101 < 16" by (simp add: ev_NoteOn_101_def MidiEvent_new_def)
  have h4: "type ev_NoteOn_101 = MIDI_NOTE_ON"
    by (simp add: ev_NoteOn_101_def MidiEvent_new_def midi_consts)
  have h5: "\<not> channelMuted ev_NoteOn_101 ?pl"
    by (simp add: channelMuted_def setVelocityScale_def MidiPlayer_new_def)
  have h6: "data2 ev_NoteOn_101 \<noteq> 0" by (simp add: ev_NoteOn_101_def MidiEvent_new_def)
  have c: "outChannel ev_NoteOn_101 ?pl = 3"
    by (simp add: outChannel_def ev_NoteOn_101_def MidiEvent_new_def setVelocityScale_def
        MidiPlayer_new_def)
  have n: "transposedNote ev_NoteOn_101 ?pl = 60"
    by (simp add: transposedNote_def ev_NoteOn_101_def MidiEvent_new_def setVelocityScale_def
        MidiPlayer_new_def)
  have v: "velocityFormula (unat (data2 ev_NoteOn_101)) (unat (velocityScale ?pl))
             (unat (channelVelocities ?pl ! unat (channel ev_NoteOn_101))) = 90"
    by (simp add: velocityFormula_def ev_NoteOn_101_def MidiEvent_new_def setVelocityScale_def
        MidiPlayer_new_def)
  from sendMidiEvent_NoteOn [OF h1 h2 h3 h4 h5] h6
  obtain vel where r: "sendMidiEvent ev_NoteOn_101 ?pl
                        = Some (sendNoteOn 3 60 vel, ?pl)"
    and u: "unat vel = 90"
    and o: "sendNoteOn 3 60 vel = [NoteOn 3 60 vel]"
    unfolding c n v by auto
  have "vel = 90" using u by (simp add: word_unat_eq_iff)
  then show ?thesis using r o by simp
qed

section \<open>The mute gate\<close>

lemma muteBit_iff: "muteBit c pl = bit (channelMutes pl) (unat c)"
proof -
  have "bit (channelMutes pl) (unat c) \<Longrightarrow> unat c < 16"
    using bit_imp_le_length [of "channelMutes pl" "unat c"] by simp
  then show ?thesis
    by (auto simp add: muteBit_def and_exp_eq_0_iff_not_bit bit_ucast_iff)
qed

lemma muteBit_muteChannel:
  assumes "c < 16"
  shows "muteBit c (snd (muteChannel c pl))"
proof -
  have "unat c < 16" using assms by (simp add: word_less_nat_alt)
  then show ?thesis
    using assms
    by (simp add: muteBit_iff muteChannel_def Let_def not_le [symmetric]
        bit_ucast_iff bit_or_iff bit_exp_iff)
qed

lemma muteBit_muteChannel_other:
  assumes "muteBit c pl"
  shows "muteBit c (snd (muteChannel c' pl))"
proof -
  have "unat c < 16"
    using assms bit_imp_le_length [of "channelMutes pl" "unat c"] by (simp add: muteBit_iff)
  then show ?thesis
    using assms
    by (simp add: muteBit_iff muteChannel_def Let_def bit_ucast_iff bit_or_iff)
qed

lemma muteBit_unmuteChannel_other:
  assumes "muteBit c pl" and "c' \<noteq> c"
  shows "muteBit c (unmuteChannel c' pl)"
proof -
  have "unat c < 16"
    using assms bit_imp_le_length [of "channelMutes pl" "unat c"] by (simp add: muteBit_iff)
  moreover have "unat c' \<noteq> unat c" using assms(2) by (simp add: word_unat_eq_iff)
  ultimately show ?thesis
    using assms
    by (simp add: muteBit_iff unmuteChannel_def Let_def bit_ucast_iff bit_and_iff bit_not_iff
        bit_exp_iff)
qed

lemma muteBit_toggle_other:
  assumes "muteBit c pl" and "c' \<noteq> c"
  shows "muteBit c (snd (toggleMuteChannel c' pl))"
  using assms
  by (simp add: toggleMuteChannel_def muteBit_muteChannel_other muteBit_unmuteChannel_other)

lemma muteBit_cong: "channelMutes pl' = channelMutes pl \<Longrightarrow> muteBit c pl' = muteBit c pl"
  by (simp add: muteBit_def)

lemma channelMutes_readNextEvent_pl [simp]:
  "channelMutes (readNextEvent_pl pl) = channelMutes pl"
  by (simp add: readNextEvent_pl_def split: prod.splits)

lemma channelMutes_play:
  "play now pl = Some (m, pl') \<Longrightarrow> channelMutes pl' = channelMutes pl"
  by (auto simp add: play_def Let_def split: if_splits prod.splits option.splits)

lemma channelMutes_pause:
  "pause pl = Some (m, pl') \<Longrightarrow> channelMutes pl' = channelMutes pl"
  by (auto simp add: pause_def Let_def split: if_splits option.splits)

lemma channelMutes_stop:
  "stop r pl = Some (m, pl') \<Longrightarrow> channelMutes pl' = channelMutes pl"
  by (auto simp add: stop_def Let_def split: if_splits prod.splits option.splits)

lemma channelMutes_loadFile:
  "loadFile file pl = Some (ok, m, pl') \<Longrightarrow> channelMutes pl' = channelMutes pl"
  by (auto simp add: loadFile_def Let_def split: if_splits prod.splits option.splits
      dest: channelMutes_stop)

lemma channelMutes_calc:
  "calculateMicrosecondsPerTick pl = Some pl' \<Longrightarrow> channelMutes pl' = channelMutes pl"
  by (auto simp add: calculateMicrosecondsPerTick_def Let_def split: if_splits)

lemma channelMutes_setTempoPercent:
  "setTempoPercent percent pl = Some pl' \<Longrightarrow> channelMutes pl' = channelMutes pl"
  by (auto simp add: setTempoPercent_def Let_def dest: channelMutes_calc)

lemma sendMidiEvent_cases:
  "sendMidiEvent event pl = Some (m, pl') \<Longrightarrow>
     pl' = pl \<or> calculateMicrosecondsPerTick pl = Some pl'"
  unfolding sendMidiEvent_def Let_def
  by (simp split: if_splits option.splits)

lemma channelMutes_sendMidiEvent:
  "sendMidiEvent event pl = Some (m, pl') \<Longrightarrow> channelMutes pl' = channelMutes pl"
  using sendMidiEvent_cases channelMutes_calc by blast

lemma channelMutes_fastForward_loop [simp]:
  "channelMutes (fastForward_loop t n pl) = channelMutes pl"
proof (induction t n pl rule: fastForward_loop.induct)
  case (1 t n pl)
  then show ?case
    by (subst fastForward_loop.simps) auto
qed

lemma fastForward_result:
  assumes "fastForward ms now pl = Some (m, pl')"
  shows "\<exists>pl1 m1 m4.
           (if state pl = STATE_PLAYING then pause pl else Some ([], pl)) = Some (m1, pl1)
         \<and> (if state pl = STATE_PLAYING then play now (fastForward_seek ms now pl1)
              else Some ([], fastForward_seek ms now pl1)) = Some (m4, pl')"
  using assms unfolding fastForward_def Let_def
  by (auto split: option.splits prod.splits if_splits)

lemma channelMutes_fastForward_seek [simp]:
  "channelMutes (fastForward_seek ms now pl) = channelMutes pl"
  by (simp add: fastForward_seek_def Let_def)

lemma channelMutes_fastForward:
  assumes "fastForward ms now pl = Some (m, pl')"
  shows "channelMutes pl' = channelMutes pl"
proof -
  from fastForward_result [OF assms] obtain pl1 m1 m4 where
    a: "(if state pl = STATE_PLAYING then pause pl else Some ([], pl)) = Some (m1, pl1)"
    and c: "(if state pl = STATE_PLAYING then play now (fastForward_seek ms now pl1)
              else Some ([], fastForward_seek ms now pl1)) = Some (m4, pl')"
    by blast
  have "channelMutes pl1 = channelMutes pl"
    using a channelMutes_pause by (cases "state pl = STATE_PLAYING") auto
  moreover have "channelMutes pl' = channelMutes (fastForward_seek ms now pl1)"
    using c channelMutes_play by (cases "state pl = STATE_PLAYING") auto
  ultimately show ?thesis by simp
qed

lemma muteBit_applyOp:
  assumes "muteBit c pl" and "\<not> unmutes c op" and "applyOp op pl = Some (m, pl')"
  shows "muteBit c pl'"
proof (cases op)
  case (Op_muteChannel c')
  then have "pl' = snd (muteChannel c' pl)" using assms(3) by auto
  then show ?thesis using assms(1) muteBit_muteChannel_other by simp
next
  case (Op_unmuteChannel c')
  then have "pl' = unmuteChannel c' pl" and "c' \<noteq> c"
    using assms(2,3) by (auto simp: unmutes_def)
  then show ?thesis using assms(1) muteBit_unmuteChannel_other by simp
next
  case (Op_toggleMuteChannel c')
  then have "pl' = snd (toggleMuteChannel c' pl)" and "c' \<noteq> c"
    using assms(2,3) by (auto simp: unmutes_def)
  then show ?thesis using assms(1) muteBit_toggle_other by simp
next
  case (Op_play now)
  then have "play now pl = Some (m, pl')" using assms(3) by simp
  from channelMutes_play [OF this] show ?thesis using assms(1) by (simp add: muteBit_def)
next
  case Op_pause
  then have "pause pl = Some (m, pl')" using assms(3) by simp
  from channelMutes_pause [OF this] show ?thesis using assms(1) by (simp add: muteBit_def)
next
  case (Op_stop r)
  then have "stop r pl = Some (m, pl')" using assms(3) by simp
  from channelMutes_stop [OF this] show ?thesis using assms(1) by (simp add: muteBit_def)
next
  case (Op_loadFile fl)
  then obtain ok where "loadFile fl pl = Some (ok, m, pl')" using assms(3) by auto
  from channelMutes_loadFile [OF this] show ?thesis using assms(1) by (simp add: muteBit_def)
next
  case (Op_sendMidiEvent ev)
  then have "sendMidiEvent ev pl = Some (m, pl')" using assms(3) by simp
  from channelMutes_sendMidiEvent [OF this] show ?thesis
    using assms(1) by (simp add: muteBit_def)
next
  case (Op_setTempoPercent percent)
  then have "setTempoPercent percent pl = Some pl'" using assms(3) by auto
  from channelMutes_setTempoPercent [OF this] show ?thesis
    using assms(1) by (simp add: muteBit_def)
next
  case (Op_setVelocityScale scale)
  then have "pl' = setVelocityScale scale pl" using assms(3) by simp
  then show ?thesis using assms(1) by (simp add: setVelocityScale_def Let_def muteBit_def)
next
  case (Op_fastForward ms now)
  then have "fastForward ms now pl = Some (m, pl')" using assms(3) by simp
  from channelMutes_fastForward [OF this] show ?thesis
    using assms(1) by (simp add: muteBit_def)
qed

lemma muteBit_runOps:
  assumes "muteBit c pl" and "\<forall>op \<in> set ops. \<not> unmutes c op" and "runOps ops pl = Some pl'"
  shows "muteBit c pl'"
  using assms
proof (induction ops arbitrary: pl)
  case Nil
  then show ?case by simp
next
  case (Cons op ops)
  from Cons.prems(3) obtain m pl1 where a: "applyOp op pl = Some (m, pl1)"
    and r: "runOps ops pl1 = Some pl'"
    by (auto split: option.splits)
  have "muteBit c pl1"
    using muteBit_applyOp [OF Cons.prems(1) _ a] Cons.prems(2) by simp
  then show ?case using Cons.IH [OF _ _ r] Cons.prems(2) by simp
qed

text \<open>
  C5. After \<open>muteChannel c\<close> for a channel \<open>c\<close> below 16 and any sequence of the modelled
  operations that contains neither \<open>unmuteChannel c\<close> nor \<open>toggleMuteChannel c\<close>, a NoteOn
  or NoteOff whose original channel is \<open>c\<close> is dropped by \<open>sendMidiEvent\<close>: nothing is
  sent and the player is unchanged. The other channel messages on \<open>c\<close> are sent: with an
  output attached, a routed channel in 1..16 and data bytes up to 127, a control change
  (unless it is CC 7 or CC 10 under a volume or pan override), a program change (unless a
  program override is set), a pitch bend, a channel aftertouch and a poly aftertouch each go
  out as exactly that one message on the routed channel; a SysEx event with data goes out
  when SysEx is enabled. In every case the messages for an event that is not a note are
  those sent with no channel muted at all.
\<close>

theorem mute_gate:
  assumes "c < 16" and "channel event = c" and "\<not> isMetaEvent event"
    and "\<forall>op \<in> set ops. \<not> unmutes c op"
    and "runOps ops (snd (muteChannel c pl)) = Some pl'"
  shows "(type event = MIDI_NOTE_ON \<or> type event = MIDI_NOTE_OFF \<longrightarrow>
            sendMidiEvent event pl' = Some ([], pl'))
       \<and> (midiOut pl' \<and> 1 \<le> outChannel event pl' \<and> outChannel event pl' \<le> 16
            \<and> data1 event \<le> 127 \<and> data2 event \<le> 127 \<longrightarrow>
            (type event = MIDI_CONTROL_CHANGE
               \<and> \<not> (data1 event = 7 \<and> userChannelVolumes pl' ! unat c < 128)
               \<and> \<not> (data1 event = 10 \<and> userChannelPan pl' ! unat c < 128) \<longrightarrow>
               sendMidiEvent event pl'
                 = Some ([ControlChange (outChannel event pl') (data1 event) (data2 event)], pl'))
          \<and> (type event = MIDI_PROGRAM_CHANGE \<and> \<not> userChannelPrograms pl' ! unat c < 128 \<longrightarrow>
               sendMidiEvent event pl'
                 = Some ([ProgramChange (outChannel event pl') (data1 event)], pl'))
          \<and> (type event = MIDI_PITCH_BEND \<longrightarrow>
               sendMidiEvent event pl'
                 = Some ([PitchBend (outChannel event pl')
                           ((push_bit 7 (ucast (data2 event)) OR ucast (data1 event)) - 8192)], pl'))
          \<and> (type event = MIDI_CHANNEL_AFTERTOUCH \<longrightarrow>
               sendMidiEvent event pl'
                 = Some ([AfterTouch (outChannel event pl') (data1 event)], pl'))
          \<and> (type event = MIDI_POLY_AFTERTOUCH \<longrightarrow>
               sendMidiEvent event pl'
                 = Some ([PolyAfterTouch (outChannel event pl') (data1 event) (data2 event)], pl')))
       \<and> (midiOut pl' \<and> type event = MIDI_SYSEX \<and> sysexEnabled pl' \<and> sysexLength event > 0 \<longrightarrow>
            (\<forall>d. sysexData event = Some d \<longrightarrow>
               sendMidiEvent event pl' = Some ([SysEx (take (unat (sysexLength event)) d)], pl')))
       \<and> (type event \<noteq> MIDI_NOTE_ON \<and> type event \<noteq> MIDI_NOTE_OFF \<longrightarrow>
            map_option fst (sendMidiEvent event pl')
              = map_option fst (sendMidiEvent event (pl'\<lparr> channelMutes := 0 \<rparr>)))"
proof -
  have "muteBit c pl'"
    using muteBit_runOps [OF muteBit_muteChannel [OF assms(1)] assms(4,5)] .
  then have m: "channelMuted event pl'"
    using assms(2) by (simp add: muteBit_def channelMuted_def)
  have ch: "\<not> channel event \<ge> 16" using assms(1,2) by (simp add: not_le)
  have 1: "type event = MIDI_NOTE_ON \<or> type event = MIDI_NOTE_OFF \<Longrightarrow>
            sendMidiEvent event pl' = Some ([], pl')"
    using m ch assms(3) by (auto simp add: sendMidiEvent_def Let_def)
  have oc: "outChannel event pl'
              = (if userChannelRouting pl' ! unat (channel event) \<noteq> 255
                 then userChannelRouting pl' ! unat (channel event) + 1 else channel event + 1)"
    by (simp add: outChannel_def Let_def)
  have 2: "midiOut pl' \<and> 1 \<le> outChannel event pl' \<and> outChannel event pl' \<le> 16
            \<and> data1 event \<le> 127 \<and> data2 event \<le> 127 \<Longrightarrow>
            (type event = MIDI_CONTROL_CHANGE
               \<and> \<not> (data1 event = 7 \<and> userChannelVolumes pl' ! unat c < 128)
               \<and> \<not> (data1 event = 10 \<and> userChannelPan pl' ! unat c < 128) \<longrightarrow>
               sendMidiEvent event pl'
                 = Some ([ControlChange (outChannel event pl') (data1 event) (data2 event)], pl'))
          \<and> (type event = MIDI_PROGRAM_CHANGE \<and> \<not> userChannelPrograms pl' ! unat c < 128 \<longrightarrow>
               sendMidiEvent event pl'
                 = Some ([ProgramChange (outChannel event pl') (data1 event)], pl'))
          \<and> (type event = MIDI_PITCH_BEND \<longrightarrow>
               sendMidiEvent event pl'
                 = Some ([PitchBend (outChannel event pl')
                           ((push_bit 7 (ucast (data2 event)) OR ucast (data1 event)) - 8192)], pl'))
          \<and> (type event = MIDI_CHANNEL_AFTERTOUCH \<longrightarrow>
               sendMidiEvent event pl'
                 = Some ([AfterTouch (outChannel event pl') (data1 event)], pl'))
          \<and> (type event = MIDI_POLY_AFTERTOUCH \<longrightarrow>
               sendMidiEvent event pl'
                 = Some ([PolyAfterTouch (outChannel event pl') (data1 event) (data2 event)], pl'))"
  proof -
    assume v: "midiOut pl' \<and> 1 \<le> outChannel event pl' \<and> outChannel event pl' \<le> 16
            \<and> data1 event \<le> 127 \<and> data2 event \<le> 127"
    then have valid: "\<not> outChannel event pl' < 1" "\<not> outChannel event pl' > 16"
      "\<not> data1 event > 127" "\<not> data2 event > 127"
      by (auto simp add: not_less word_le_nat_alt word_less_nat_alt)
    have out: "midiOut pl'" using v by simp
    have cc: "sendMidiEvent event pl'
                 = Some ([ControlChange (outChannel event pl') (data1 event) (data2 event)], pl')"
      if "type event = MIDI_CONTROL_CHANGE"
        and "\<not> (data1 event = 7 \<and> userChannelVolumes pl' ! unat c < 128)"
        and "\<not> (data1 event = 10 \<and> userChannelPan pl' ! unat c < 128)"
      using that ch assms(2,3) out valid unfolding sendMidiEvent_def Let_def oc [symmetric]
      by (auto simp add: midi_consts sendControlChange_def)
    have pc: "sendMidiEvent event pl'
                 = Some ([ProgramChange (outChannel event pl') (data1 event)], pl')"
      if "type event = MIDI_PROGRAM_CHANGE" and "\<not> userChannelPrograms pl' ! unat c < 128"
      using that ch assms(2,3) out valid unfolding sendMidiEvent_def Let_def oc [symmetric]
      by (auto simp add: midi_consts sendProgramChange_def)
    have pb: "sendMidiEvent event pl'
                 = Some ([PitchBend (outChannel event pl')
                           ((push_bit 7 (ucast (data2 event)) OR ucast (data1 event)) - 8192)], pl')"
      if "type event = MIDI_PITCH_BEND"
      using that ch assms(2,3) out valid unfolding sendMidiEvent_def Let_def oc [symmetric]
      by (auto simp add: midi_consts sendPitchBend_def)
    have ca: "sendMidiEvent event pl'
                 = Some ([AfterTouch (outChannel event pl') (data1 event)], pl')"
      if "type event = MIDI_CHANNEL_AFTERTOUCH"
      using that ch assms(2,3) out valid unfolding sendMidiEvent_def Let_def oc [symmetric]
      by (auto simp add: midi_consts sendAfterTouch_def)
    have pa: "sendMidiEvent event pl'
                 = Some ([PolyAfterTouch (outChannel event pl') (data1 event) (data2 event)], pl')"
      if "type event = MIDI_POLY_AFTERTOUCH"
      using that ch assms(2,3) out valid unfolding sendMidiEvent_def Let_def oc [symmetric]
      by (auto simp add: midi_consts sendPolyAfterTouch_def)
    show ?thesis using cc pc pb ca pa by blast
  qed
  have 3: "midiOut pl' \<and> type event = MIDI_SYSEX \<and> sysexEnabled pl' \<and> sysexLength event > 0 \<Longrightarrow>
            (\<forall>d. sysexData event = Some d \<longrightarrow>
               sendMidiEvent event pl' = Some ([SysEx (take (unat (sysexLength event)) d)], pl'))"
    using ch assms(3) unfolding sendMidiEvent_def Let_def
    by (simp add: midi_consts sendSysEx_def)
  have 4: "type event \<noteq> MIDI_NOTE_ON \<and> type event \<noteq> MIDI_NOTE_OFF \<Longrightarrow>
            map_option fst (sendMidiEvent event pl')
              = map_option fst (sendMidiEvent event (pl'\<lparr> channelMutes := 0 \<rparr>))"
    using assms(3) by (auto simp add: sendMidiEvent_def Let_def split: option.splits)
  show ?thesis using 1 2 3 4 by blast
qed

theorem mute_gate_witness:
  "runOps ops_ch3 (snd (muteChannel 3 (MidiPlayer_new True []))) = Some pl_muted3
   \<and> sendMidiEvent ev_NoteOn_ch3 pl_muted3 = Some ([], pl_muted3)
   \<and> sendMidiEvent ev_CC_ch3 pl_muted3 = Some ([ControlChange 4 64 127], pl_muted3)"
proof -
  have h1: "(3 :: uint8_t) < 16" by simp
  have n2: "channel ev_NoteOn_ch3 = 3" by (simp add: ev_NoteOn_ch3_def MidiEvent_new_def)
  have n3: "\<not> isMetaEvent ev_NoteOn_ch3" by (simp add: ev_NoteOn_ch3_def MidiEvent_new_def)
  have c2: "channel ev_CC_ch3 = 3" by (simp add: ev_CC_ch3_def MidiEvent_new_def)
  have c3: "\<not> isMetaEvent ev_CC_ch3" by (simp add: ev_CC_ch3_def MidiEvent_new_def)
  have h4: "\<forall>op \<in> set ops_ch3. \<not> unmutes 3 op" by (simp add: ops_ch3_def unmutes_def)
  have h5: "runOps ops_ch3 (snd (muteChannel 3 (MidiPlayer_new True []))) = Some pl_muted3"
    by (simp add: ops_ch3_def muteChannel_def unmuteChannel_def setVelocityScale_def
        Let_def MidiPlayer_new_def pl_muted3_def)
  have ty: "type ev_NoteOn_ch3 = MIDI_NOTE_ON"
    by (simp add: ev_NoteOn_ch3_def MidiEvent_new_def midi_consts)
  have cc: "type ev_CC_ch3 = MIDI_CONTROL_CHANGE" "data1 ev_CC_ch3 = 64" "data2 ev_CC_ch3 = 127"
    by (simp_all add: ev_CC_ch3_def MidiEvent_new_def midi_consts)
  have out: "midiOut pl_muted3" "outChannel ev_CC_ch3 pl_muted3 = 4"
    by (simp_all add: pl_muted3_def MidiPlayer_new_def outChannel_def Let_def c2)
  from mute_gate [OF h1 n2 n3 h4 h5] ty have a: "sendMidiEvent ev_NoteOn_ch3 pl_muted3 = Some ([], pl_muted3)"
    by simp
  from mute_gate [OF h1 c2 c3 h4 h5] cc out
  have b: "sendMidiEvent ev_CC_ch3 pl_muted3 = Some ([ControlChange 4 64 127], pl_muted3)"
    by simp
  from a b h5 show ?thesis by simp
qed

section \<open>Stopping\<close>

lemma stopAllNotes_messages: "midiOut pl \<Longrightarrow> stopAllNotes pl = allNotesOffMessages"
  by (simp add: stopAllNotes_def allNotesOffMessages_def sendControlChange_def upt_rec)

lemma reset_ok: "fst (reset p) = (midiFile p \<noteq> None)"
  by (auto simp add: reset_def file_seekSet_def seekSet_def Let_def
      split: option.splits prod.splits)

text \<open>
  C8, amended. \<open>stop(true)\<close> on a stopped player returns at once: nothing is sent and
  nothing changes. From Playing or Paused, with an output attached, it sends Clock Stop
  when the clock is enabled, then All-Notes-Off on the 16 channels, and leaves the state
  Stopped; when the parser has its file, \<open>reset\<close> succeeds, the parser is the reset one
  with its first event read ahead, and \<open>ticksElapsed\<close> is 0.
\<close>

theorem stop_reset:
  "(state pl = STATE_STOPPED \<longrightarrow> stop True pl = Some ([], pl))
   \<and> (state pl \<noteq> STATE_STOPPED \<and> midiOut pl \<longrightarrow>
        (\<exists>pl'. stop True pl
                 = Some ((if clockEnabled pl then [Stop] else []) @ allNotesOffMessages, pl')
           \<and> state pl' = STATE_STOPPED
           \<and> (midiFile (parser pl) \<noteq> None \<longrightarrow>
                 fst (reset (parser pl))
               \<and> pl' = readNextEvent_pl
                          (pl\<lparr> state := STATE_STOPPED, parser := snd (reset (parser pl)),
                               ticksElapsed := 0 \<rparr>)
               \<and> ticksElapsed pl' = 0)))"
proof -
  have 1: "state pl = STATE_STOPPED \<Longrightarrow> stop True pl = Some ([], pl)"
    by (simp add: stop_def)
  have 2: "\<exists>pl'. stop True pl
                 = Some ((if clockEnabled pl then [Stop] else []) @ allNotesOffMessages, pl')
           \<and> state pl' = STATE_STOPPED
           \<and> (midiFile (parser pl) \<noteq> None \<longrightarrow>
                 fst (reset (parser pl))
               \<and> pl' = readNextEvent_pl
                          (pl\<lparr> state := STATE_STOPPED, parser := snd (reset (parser pl)),
                               ticksElapsed := 0 \<rparr>)
               \<and> ticksElapsed pl' = 0)"
    if a: "state pl \<noteq> STATE_STOPPED" and b: "midiOut pl"
  proof -
    let ?pl1 = "pl\<lparr> state := STATE_STOPPED \<rparr>"
    have m1: "sendClockMessage Stop ?pl1 = Some (if clockEnabled pl then [Stop] else [])"
      using b by (simp add: sendClockMessage_def)
    have m2: "stopAllNotes ?pl1 = allNotesOffMessages"
      using b by (simp add: stopAllNotes_messages)
    obtain ok ps where r: "reset (parser pl) = (ok, ps)" by (cases "reset (parser pl)")
    have ok: "ok = (midiFile (parser pl) \<noteq> None)" using reset_ok [of "parser pl"] r by simp
    have st: "state (readNextEvent_pl x) = state x" for x
      by (simp add: readNextEvent_pl_def split: prod.splits)
    have te: "ticksElapsed (readNextEvent_pl x) = ticksElapsed x" for x
      by (simp add: readNextEvent_pl_def split: prod.splits)
    show ?thesis
      using a m1 m2 r ok by (cases ok) (simp_all add: stop_def Let_def st te)
  qed
  show ?thesis using 1 2 by blast
qed

theorem stop_reset_witness:
  "map_option fst (stop True pl_playing) = Some (Stop # allNotesOffMessages)
   \<and> map_option (\<lambda>r. ticksElapsed (snd r)) (stop True pl_playing) = Some 0"
proof -
  have h1: "state pl_playing \<noteq> STATE_STOPPED" by (simp add: pl_playing_def)
  have h2: "midiOut pl_playing" by (simp add: pl_playing_def MidiPlayer_new_def)
  have h3: "midiFile (parser pl_playing) \<noteq> None" by (simp add: pl_playing_def)
  have h4: "clockEnabled pl_playing" by (simp add: pl_playing_def)
  from stop_reset [of pl_playing] h1 h2 h3 h4 show ?thesis by auto
qed

text \<open>
  C8 as stated fails from Stopped: with the clock enabled and the position at tick 5,
  \<open>stop(true)\<close> sends nothing and the position stays at 5.
\<close>

theorem stop_when_stopped_counterexample:
  "map_option fst (stop True pl_stopped) = Some []
   \<and> map_option (\<lambda>r. ticksElapsed (snd r)) (stop True pl_stopped) = Some 5"
  by (simp add: stop_def pl_stopped_def MidiPlayer_new_def)

section \<open>Fast forward\<close>

lemma state_fastForward_loop [simp]: "state (fastForward_loop t n pl) = state pl"
proof (induction t n pl rule: fastForward_loop.induct)
  case (1 t n pl)
  then show ?case
    by (subst fastForward_loop.simps) (auto simp add: readNextEvent_pl_def split: prod.splits)
qed

lemma pause_fields:
  assumes "pause pl = Some (m, pl')"
  shows "ticksElapsed pl' = ticksElapsed pl" and "microsecondsPerTick pl' = microsecondsPerTick pl"
    and "parser pl' = parser pl" and "state pl = STATE_PLAYING \<Longrightarrow> state pl' = STATE_PAUSED"
  using assms by (auto simp add: pause_def Let_def split: if_splits option.splits)

lemma play_ticksElapsed:
  assumes "play now pl = Some (m, pl')" and "state pl \<noteq> STATE_STOPPED"
  shows "ticksElapsed pl' = ticksElapsed pl"
  using assms by (auto simp add: play_def Let_def split: if_splits option.splits)

lemma pause_Some: "midiOut pl \<Longrightarrow> pause pl \<noteq> None"
  by (simp add: pause_def Let_def sendClockMessage_def)

lemma play_Some: "midiOut pl \<Longrightarrow> play now pl \<noteq> None"
  by (simp add: play_def Let_def sendClockMessage_def readNextEvent_pl_def
      split: prod.splits)

lemma midiOut_fastForward_loop [simp]: "midiOut (fastForward_loop t n pl) = midiOut pl"
proof (induction t n pl rule: fastForward_loop.induct)
  case (1 t n pl)
  then show ?case
    by (subst fastForward_loop.simps) (auto simp add: readNextEvent_pl_def split: prod.splits)
qed

lemma pause_midiOut: "pause pl = Some (m, pl') \<Longrightarrow> midiOut pl' = midiOut pl"
  by (auto simp add: pause_def Let_def split: if_splits option.splits)

lemma fastForward_Some:
  assumes "midiOut pl"
  shows "fastForward ms now pl \<noteq> None"
proof (cases "state pl = STATE_PLAYING")
  case False
  then show ?thesis by (simp add: fastForward_def Let_def)
next
  case True
  obtain m1 pl1 where p: "pause pl = Some (m1, pl1)"
    using pause_Some [OF assms] by (cases "pause pl") auto
  have "midiOut (fastForward_seek ms now pl1)"
    using pause_midiOut [OF p] assms by (simp add: fastForward_seek_def Let_def)
  from play_Some [OF this] obtain r where "play now (fastForward_seek ms now pl1) = Some r"
    by blast
  then show ?thesis
    using True p by (simp add: fastForward_def Let_def split: prod.splits)
qed

text \<open>
  \<open>fastForward\<close> returns whenever an output is attached, and on return \<open>ticksElapsed\<close>
  is the target computed at entry, whatever the skip loop consumed.
\<close>

lemma fastForward_position:
  "(midiOut pl \<longrightarrow> fastForward ms now pl \<noteq> None)
   \<and> (\<forall>m pl'. fastForward ms now pl = Some (m, pl') \<longrightarrow>
         ticksElapsed pl' = fastForward_target ms pl)"
proof -
  have res: "ticksElapsed pl' = fastForward_target ms pl"
    if f: "fastForward ms now pl = Some (m, pl')" for m pl'
  proof -
    from fastForward_result [OF f] obtain pl1 m1 m4 where
      a: "(if state pl = STATE_PLAYING then pause pl else Some ([], pl)) = Some (m1, pl1)"
      and c: "(if state pl = STATE_PLAYING then play now (fastForward_seek ms now pl1)
              else Some ([], fastForward_seek ms now pl1)) = Some (m4, pl')"
      by blast
    show ?thesis
    proof (cases "state pl = STATE_PLAYING")
      case False
      then have "pl1 = pl" and "pl' = fastForward_seek ms now pl" using a c by auto
      then show ?thesis by (simp add: fastForward_seek_def Let_def)
    next
      case True
      then have p: "pause pl = Some (m1, pl1)"
        and q: "play now (fastForward_seek ms now pl1) = Some (m4, pl')"
        using a c by auto
      note P = pause_fields [OF p]
      have t1: "fastForward_target ms pl1 = fastForward_target ms pl"
        using P(1,2,3) by (simp add: fastForward_target_def millisecondsToTicks_def)
      have "state (fastForward_seek ms now pl1) = STATE_PAUSED"
        using P(4) [OF True] by (simp add: fastForward_seek_def Let_def)
      then have "ticksElapsed pl' = ticksElapsed (fastForward_seek ms now pl1)"
        using play_ticksElapsed [OF q] by simp
      then show ?thesis using t1 by (simp add: fastForward_seek_def Let_def)
    qed
  qed
  show ?thesis
    using fastForward_Some [of pl ms now] res by blast
qed

text \<open>The target on natural numbers: the sum is reduced modulo \<open>2^32\<close> before the clamp.\<close>

lemma fastForward_target_mod:
  "unat (fastForward_target ms pl)
     = min ((unat (ticksElapsed pl) + unat (millisecondsToTicks ms pl)) mod 2 ^ 32)
           (unat (fileLengthTicks (parser pl)))"
  by (auto simp add: fastForward_target_def Let_def unat_word_ariths word_less_nat_alt min_def)

text \<open>
  As long as the sum of the position and the converted time fits 32 bits, the position on
  return is the minimum of that sum and the file length, and it does not advance while the
  file length or \<open>microsecondsPerTick\<close> is 0.
\<close>

lemma fastForward_without_overflow:
  assumes "unat (ticksElapsed pl) + unat (millisecondsToTicks ms pl) < 2 ^ 32"
    and "fastForward ms now pl = Some (m, pl')"
  shows "unat (ticksElapsed pl')
           = min (unat (ticksElapsed pl) + unat (millisecondsToTicks ms pl))
                 (unat (fileLengthTicks (parser pl)))"
    and "fileLengthTicks (parser pl) = 0 \<or> microsecondsPerTick pl = 0 \<Longrightarrow>
           ticksElapsed pl' \<le> ticksElapsed pl"
proof -
  have r: "ticksElapsed pl' = fastForward_target ms pl"
    using fastForward_position [of pl ms now] assms(2) by blast
  show "unat (ticksElapsed pl')
           = min (unat (ticksElapsed pl) + unat (millisecondsToTicks ms pl))
                 (unat (fileLengthTicks (parser pl)))"
    unfolding r fastForward_target_mod using assms(1) by simp
  show "ticksElapsed pl' \<le> ticksElapsed pl"
    if "fileLengthTicks (parser pl) = 0 \<or> microsecondsPerTick pl = 0"
    unfolding r using that
    by (auto simp add: fastForward_target_def Let_def millisecondsToTicks_def not_less)
qed

text \<open>
  C10. On return from \<open>fastForward(ms)\<close> the position should be the minimum of the file
  length and the old position plus \<open>millisecondsToTicks(ms)\<close>. The code forms the sum in
  \<open>uint32_t\<close> before it clamps. For a paused player at tick 4294967280 of a file of
  4294967295 ticks, at one microsecond per tick and with the next event pending at tick
  4294967288, \<open>fastForward(1000)\<close> adds 1000000 ticks: the sum wraps to 999984, the clamp
  to the file length does not apply, no event is skipped, and the position is left at
  999984, behind the pending event, where the minimum asked for is 4294967295.
\<close>

theorem fastForward_1000_wraps:
  "map_option (\<lambda>r. (unat (ticksElapsed (snd r)), eventReady_pl (snd r),
                     unat (absoluteTime (nextEvent_pl (snd r)))))
      (fastForward 1000 0 pl_late) = Some (999984, True, 4294967288)
   \<and> unat (ticksElapsed pl_late) = 4294967280
   \<and> unat (millisecondsToTicks 1000 pl_late) = 1000000
   \<and> min (unat (ticksElapsed pl_late) + unat (millisecondsToTicks 1000 pl_late))
         (unat (fileLengthTicks (parser pl_late))) = 4294967295"
proof -
  have m: "millisecondsToTicks 1000 pl_late = 1000000"
    by (simp add: millisecondsToTicks_def pl_late_def MidiPlayer_new_def)
  have t: "fastForward_target 1000 pl_late = 999984"
    by (simp add: fastForward_target_def Let_def m) (simp add: pl_late_def MidiPlayer_new_def MidiFileParser_new_def)
  have s: "state pl_late \<noteq> STATE_PLAYING" by (simp add: pl_late_def MidiPlayer_new_def)
  have l: "fastForward_loop 999984 0 pl_late = pl_late"
    by (subst fastForward_loop.simps) (simp add: pl_late_def MidiPlayer_new_def MidiEvent_new_def)
  have 1: "map_option (\<lambda>r. (unat (ticksElapsed (snd r)), eventReady_pl (snd r),
                     unat (absoluteTime (nextEvent_pl (snd r)))))
      (fastForward 1000 0 pl_late) = Some (999984, True, 4294967288)"
    using s by (simp add: fastForward_def Let_def fastForward_seek_def t l)
      (simp add: pl_late_def MidiPlayer_new_def MidiEvent_new_def)
  have 2: "unat (ticksElapsed pl_late) = 4294967280"
    by (simp add: pl_late_def MidiPlayer_new_def)
  have 3: "unat (fileLengthTicks (parser pl_late)) = 4294967295"
    by (simp add: pl_late_def MidiPlayer_new_def MidiFileParser_new_def)
  show ?thesis unfolding 2 3 m using 1 unfolding 2 by simp
qed

section \<open>Length cache\<close>

lemma searchCache_skip:
  "name \<notin> filename ` set xs \<Longrightarrow> searchCache (xs @ ys) name mt out = searchCache ys name mt out"
  by (induction xs) auto

lemma updateEntry_None: "(updateEntry name mt len sx es = None) = (name \<notin> filename ` set es)"
  by (induction es) auto

lemma updateEntry_names:
  "updateEntry name mt len sx es = Some es' \<Longrightarrow> map filename es' = map filename es"
  by (induction es arbitrary: es') (auto split: if_splits)

lemma searchCache_updateEntry:
  "updateEntry name mt len sx es = Some es' \<Longrightarrow>
     searchCache es' name mt' out = (if mt' = mt then found len sx out else absent out)"
  by (induction es arbitrary: es')
     (auto simp add: found_def absent_def split: if_splits option.splits)

lemma searchCache_distinct:
  "e \<in> set es \<Longrightarrow> distinct (map filename es) \<Longrightarrow>
     searchCache es (filename e) mt out
       = (if modtime e = mt then found (lengthTicks e) (sysexCount_entry e) out else absent out)"
  by (induction es) (auto simp add: found_def absent_def split: option.splits)

lemma searchCache_new:
  assumes "name \<notin> filename ` set xs" and "filename e = name"
  shows "searchCache (xs @ [e] @ ys) name mt out
         = (if modtime e = mt then found (lengthTicks e) (sysexCount_entry e) out else absent out)"
  using assms by (simp add: searchCache_skip found_def absent_def split: option.splits)

lemma set_take_tl: "set (take n (tl xs)) \<subseteq> set xs"
proof -
  have "set (tl xs) \<subseteq> set xs" by (cases xs) auto
  then show ?thesis using set_take_subset [of n "tl xs"] by blast
qed

lemma take_tl_drop: "take n (tl xs) @ drop (Suc n) xs = tl xs"
  by (simp add: drop_Suc)

lemma cacheFileLength_entries:
  "lengthCache (cacheFileLength name mt len sx onCard c) =
     (let es = lengthCache (ensureLoaded onCard c)
      in case updateEntry name mt len sx es of
           Some es' \<Rightarrow> es'
         | None \<Rightarrow>
             if length es < MAX_CACHE_ENTRIES then es @ [newEntry name mt len sx]
             else take (MAX_CACHE_ENTRIES - 1) (tl es) @ [newEntry name mt len sx]
                    @ drop MAX_CACHE_ENTRIES es)"
  by (simp add: cacheFileLength_def Let_def newEntry_def split: option.splits)

lemma cacheFileLength_loaded [simp]:
  "cacheLoaded (cacheFileLength name mt len sx onCard c)"
  by (simp add: cacheFileLength_def Let_def ensureLoaded_def loadLengthCache_def
      split: option.splits)

lemma getCachedFileLength_loaded:
  "cacheLoaded c \<Longrightarrow>
     fst (getCachedFileLength name mt out onCard c) = searchCache (lengthCache c) name mt out"
  by (simp add: getCachedFileLength_def ensureLoaded_def Let_def)

lemma newEntry_simps [simp]:
  "length name \<le> 63 \<Longrightarrow> filename (newEntry name mt len sx) = name"
  "modtime (newEntry name mt len sx) = mt"
  "lengthTicks (newEntry name mt len sx) = len"
  "sysexCount_entry (newEntry name mt len sx) = sx"
  by (simp_all add: newEntry_def strncpy63_def)

lemma lookup_after_insert:
  assumes "length name \<le> 63"
  shows "fst (getCachedFileLength name mt' out onCard' (cacheFileLength name mt len sx onCard c))
         = (if mt' = mt then found len sx out else absent out)"
proof -
  let ?es = "lengthCache (ensureLoaded onCard c)"
  let ?c2 = "cacheFileLength name mt len sx onCard c"
  let ?new = "newEntry name mt len sx"
  have g: "fst (getCachedFileLength name mt' out onCard' ?c2)
           = searchCache (lengthCache ?c2) name mt' out"
    by (rule getCachedFileLength_loaded) simp
  have nm: "filename ?new = name" using assms by simp
  show ?thesis
  proof (cases "updateEntry name mt len sx ?es")
    case (Some es)
    then have "lengthCache ?c2 = es" by (simp add: cacheFileLength_entries Let_def)
    then show ?thesis using g searchCache_updateEntry [OF Some] by simp
  next
    case None
    then have notin: "name \<notin> filename ` set ?es"
      by (simp add: updateEntry_None)
    show ?thesis
    proof (cases "length ?es < MAX_CACHE_ENTRIES")
      case True
      then have e: "lengthCache ?c2 = ?es @ [?new] @ []"
        using None by (simp add: cacheFileLength_entries Let_def)
      show ?thesis
        unfolding g e searchCache_new [OF notin nm] by simp
    next
      case False
      let ?xs = "take (MAX_CACHE_ENTRIES - 1) (tl ?es)"
      have notin': "name \<notin> filename ` set ?xs"
        using notin set_take_tl [of "MAX_CACHE_ENTRIES - 1" ?es] by blast
      have e: "lengthCache ?c2 = ?xs @ [?new] @ drop MAX_CACHE_ENTRIES ?es"
        using None False by (simp add: cacheFileLength_entries Let_def)
      show ?thesis
        unfolding g e searchCache_new [OF notin' nm] by simp
    qed
  qed
qed

lemma insert_keeps_distinct:
  assumes "length name \<le> 63" and "cacheLoaded c" and "names_distinct c"
  shows "names_distinct (cacheFileLength name mt len sx onCard c)"
proof -
  let ?es = "lengthCache c"
  let ?c2 = "cacheFileLength name mt len sx onCard c"
  let ?new = "newEntry name mt len sx"
  have c1: "ensureLoaded onCard c = c" using assms(2) by (simp add: ensureLoaded_def)
  have nm: "filename ?new = name" using assms(1) by simp
  have d: "distinct (map filename ?es)" using assms(3) by (simp add: names_distinct_def)
  show ?thesis
  proof (cases "updateEntry name mt len sx ?es")
    case (Some es)
    then have "lengthCache ?c2 = es" by (simp add: cacheFileLength_entries c1 Let_def)
    then show ?thesis using updateEntry_names [OF Some] d by (simp add: names_distinct_def)
  next
    case None
    then have notin: "name \<notin> filename ` set ?es" by (simp add: updateEntry_None)
    show ?thesis
    proof (cases "length ?es < MAX_CACHE_ENTRIES")
      case True
      then have "lengthCache ?c2 = ?es @ [?new]"
        using None by (simp add: cacheFileLength_entries c1 Let_def)
      then show ?thesis using d notin nm by (simp add: names_distinct_def)
    next
      case False
      let ?xs = "take (MAX_CACHE_ENTRIES - 1) (tl ?es)"
      let ?ys = "drop MAX_CACHE_ENTRIES ?es"
      have xy: "?xs @ ?ys = tl ?es"
        using take_tl_drop [of "MAX_CACHE_ENTRIES - 1" ?es] by (simp add: MAX_CACHE_ENTRIES_def)
      have "distinct (map filename (tl ?es))" using d by (simp add: distinct_tl map_tl)
      then have dxy: "distinct (map filename ?xs @ map filename ?ys)"
        using xy by (metis map_append)
      have "set (tl ?es) \<subseteq> set ?es" by (cases ?es) auto
      then have sub: "set ?xs \<union> set ?ys \<subseteq> set ?es"
        using xy by (metis set_append)
      have n1: "name \<notin> filename ` set ?xs" and n2: "name \<notin> filename ` set ?ys"
        using notin sub by blast+
      have e: "lengthCache ?c2 = ?xs @ [?new] @ ?ys"
        using None False by (simp add: cacheFileLength_entries c1 Let_def)
      show ?thesis
        unfolding names_distinct_def e using dxy n1 n2 nm by auto
    qed
  qed
qed

text \<open>
  C9. For a name as the cache holds it, of at most 63 characters: right after
  \<open>cacheFileLength\<close> a lookup with the same name and modification time returns the stored
  length and SysEx count, and a lookup with any other modification time returns "not
  cached". In a loaded cache whose names are pairwise distinct, which such an insert keeps,
  a lookup of any stored entry under a different modification time returns "not cached".
\<close>

theorem cache_consistency:
  assumes "length name \<le> 63"
  shows "fst (getCachedFileLength name mt out onCard' (cacheFileLength name mt len sx onCard c))
           = found len sx out
       \<and> (\<forall>mt'. mt' \<noteq> mt \<longrightarrow>
             fst (getCachedFileLength name mt' out onCard' (cacheFileLength name mt len sx onCard c))
               = absent out)
       \<and> (cacheLoaded c \<and> names_distinct c \<longrightarrow>
             names_distinct (cacheFileLength name mt len sx onCard c)
           \<and> (\<forall>e \<in> set (lengthCache c). \<forall>mt'. mt' \<noteq> modtime e \<longrightarrow>
                 fst (getCachedFileLength (filename e) mt' out onCard c) = absent out))"
proof -
  have 3: "fst (getCachedFileLength (filename e) mt' out onCard c) = absent out"
    if "cacheLoaded c" and "names_distinct c" and "e \<in> set (lengthCache c)"
      and "mt' \<noteq> modtime e" for e mt'
    using that searchCache_distinct [of e "lengthCache c" mt' out]
    by (simp add: getCachedFileLength_def ensureLoaded_def Let_def names_distinct_def)
  show ?thesis
    using lookup_after_insert [OF assms] insert_keeps_distinct [OF assms] 3 by auto
qed

theorem cache_consistency_witness:
  "fst (getCachedFileLength ''song.mid'' 7 (Some 0) []
          (cacheFileLength ''song.mid'' 7 960 2 [] cache_one)) = (960, Some 2)
   \<and> fst (getCachedFileLength ''song.mid'' 8 (Some 0) []
          (cacheFileLength ''song.mid'' 7 960 2 [] cache_one)) = (0, Some 0)
   \<and> fst (getCachedFileLength ''other.mid'' 4 (Some 0) [] cache_one) = (0, Some 0)"
proof -
  have h1: "length ''song.mid'' \<le> 63" by simp
  have h2: "cacheLoaded cache_one \<and> names_distinct cache_one"
    by (simp add: cache_one_def names_distinct_def)
  have h3: "\<lparr> filename = ''other.mid'', modtime = 3, lengthTicks = 480,
              sysexCount_entry = 0 \<rparr> \<in> set (lengthCache cache_one)"
    by (simp add: cache_one_def)
  from cache_consistency [OF h1, of 7 "Some 0" "[]" 960 2 "[]" cache_one] h2 h3
  show ?thesis
    by (simp add: found_def absent_def) force
qed

text \<open>
  The second half of C9 as stated fails when the cache file holds a name twice: both lines
  are loaded, the lookup answers from the first entry with the name, and so the stored
  entry with modification time 2 is answered with a hit when asked for time 1.
\<close>

theorem duplicate_name_counterexample:
  "\<lparr> filename = ''a.mid'', modtime = 2, lengthTicks = 200, sysexCount_entry = 0 \<rparr>
      \<in> set (lengthCache (loadLengthCache card_dup))
   \<and> fst (getCachedFileLength ''a.mid'' 1 (Some 0) card_dup (loadLengthCache card_dup))
       = found 100 0 (Some 0)
   \<and> found 100 0 (Some 0) \<noteq> absent (Some 0)"
  by (simp add: getCachedFileLength_def ensureLoaded_def loadLengthCache_def card_dup_def
      Let_def strncpy63_def absent_def found_def MAX_CACHE_ENTRIES_def)

section \<open>Tick counters of a track\<close>

lemma same_ticks_refl [simp]: "same_ticks t t"
  by (simp add: same_ticks_def)

lemma same_ticks_trans: "same_ticks a b \<Longrightarrow> same_ticks b c \<Longrightarrow> same_ticks a c"
  by (simp add: same_ticks_def)

lemma same_ticks_fillTrackBuffer_trk:
  "same_ticks t (snd (snd (fillTrackBuffer_trk f t)))"
  by (simp add: fillTrackBuffer_trk_def Let_def same_ticks_def case_prod_beta)

lemma same_ticks_readTrackByte_trk:
  "same_ticks t (snd (snd (readTrackByte_trk f t)))"
  using same_ticks_fillTrackBuffer_trk [of t f]
  by (simp add: readTrackByte_trk_def Let_def same_ticks_def case_prod_beta)

lemma same_ticks_loop:
  "same_ticks t (snd (snd (readTrackVariableLength_loop v f t)))"
proof (induction v f t rule: readTrackVariableLength_loop.induct)
  case (1 v f t)
  obtain b f' t' where r: "readTrackByte_trk f t = (b, f', t')"
    by (cases "readTrackByte_trk f t")
  have s: "same_ticks t t'" using same_ticks_readTrackByte_trk [of t f] r by simp
  show ?case
  proof (cases "b AND 0x80 \<noteq> 0")
    case True
    from "1.IH" [OF r [symmetric] refl refl True]
    have "same_ticks t' (snd (snd (readTrackVariableLength_loop
            (push_bit 7 v OR ucast (b AND 0x7F)) f' t')))" .
    with s show ?thesis
      using True r by (subst readTrackVariableLength_loop.simps)
        (simp add: Let_def same_ticks_trans)
  next
    case False
    with s show ?thesis
      using r by (subst readTrackVariableLength_loop.simps) (simp add: Let_def)
  qed
qed

lemma same_ticks_readTrackVariableLength_trk:
  "same_ticks t (snd (snd (readTrackVariableLength_trk f t)))"
  by (simp add: readTrackVariableLength_trk_def same_ticks_loop)

lemma same_ticks_readTrackBytes_trk:
  "same_ticks t (snd (snd (readTrackBytes_trk n f t)))"
proof (induction n arbitrary: f t)
  case 0
  then show ?case by simp
next
  case (Suc n)
  obtain b f1 t1 where r: "readTrackByte_trk f t = (b, f1, t1)"
    by (cases "readTrackByte_trk f t")
  have "same_ticks t t1" using same_ticks_readTrackByte_trk [of t f] r by simp
  moreover have "same_ticks t1 (snd (snd (readTrackBytes_trk n f1 t1)))" by (rule Suc.IH)
  ultimately show ?case
    using r by (simp add: case_prod_beta same_ticks_trans)
qed

lemma readTrackByte_trk_fields [simp]:
  "currentTick (snd (snd (readTrackByte_trk f t))) = currentTick t"
  "endOfTrack (snd (snd (readTrackByte_trk f t))) = endOfTrack t"
  "trackEndPos (snd (snd (readTrackByte_trk f t))) = trackEndPos t"
  "trackStartPos (snd (snd (readTrackByte_trk f t))) = trackStartPos t"
  "nextEvent (snd (snd (readTrackByte_trk f t))) = nextEvent t"
  "eventReady (snd (snd (readTrackByte_trk f t))) = eventReady t"
  using same_ticks_readTrackByte_trk [of t f] by (simp_all add: same_ticks_def)

lemma readTrackVariableLength_trk_fields [simp]:
  "currentTick (snd (snd (readTrackVariableLength_trk f t))) = currentTick t"
  "endOfTrack (snd (snd (readTrackVariableLength_trk f t))) = endOfTrack t"
  "trackEndPos (snd (snd (readTrackVariableLength_trk f t))) = trackEndPos t"
  "trackStartPos (snd (snd (readTrackVariableLength_trk f t))) = trackStartPos t"
  "nextEvent (snd (snd (readTrackVariableLength_trk f t))) = nextEvent t"
  "eventReady (snd (snd (readTrackVariableLength_trk f t))) = eventReady t"
  using same_ticks_readTrackVariableLength_trk [of t f] by (simp_all add: same_ticks_def)

lemma readTrackBytes_trk_fields [simp]:
  "currentTick (snd (snd (readTrackBytes_trk n f t))) = currentTick t"
  "endOfTrack (snd (snd (readTrackBytes_trk n f t))) = endOfTrack t"
  "trackEndPos (snd (snd (readTrackBytes_trk n f t))) = trackEndPos t"
  "trackStartPos (snd (snd (readTrackBytes_trk n f t))) = trackStartPos t"
  "nextEvent (snd (snd (readTrackBytes_trk n f t))) = nextEvent t"
  "eventReady (snd (snd (readTrackBytes_trk n f t))) = eventReady t"
  using same_ticks_readTrackBytes_trk [of t n f] by (simp_all add: same_ticks_def)

lemma readMetaPayload_ticks:
  assumes "readMetaPayload metaType len f info t = (True, f', info', t')"
  shows "same_ticks t t'"
  using assms
  by (auto simp add: readMetaPayload_def same_ticks_def case_prod_beta Let_def
      split: if_splits)

lemma readSysExEvent_ticks:
  assumes "readSysExEvent f info t ev = (ok, f', info', t', ev')"
  shows "same_ticks t t'" and "same_time ev ev'"
  using assms
  by (auto simp add: readSysExEvent_def same_ticks_def same_time_def case_prod_beta)

lemma readMetaEvent_ticks:
  assumes "readMetaEvent f info t ev = (True, f', info', t', ev')"
  shows "same_ticks t t'" and "same_time ev ev'"
proof -
  obtain mt f1 t1 where a: "readTrackByte_trk f t = (mt, f1, t1)"
    by (cases "readTrackByte_trk f t")
  obtain len f2 t2 where b: "readTrackVariableLength_trk f1 t1 = (len, f2, t2)"
    by (cases "readTrackVariableLength_trk f1 t1")
  obtain c f3 i3 t3 where c: "readMetaPayload mt len f2 info t2 = (c, f3, i3, t3)"
    by (cases "readMetaPayload mt len f2 info t2")
  have c': "c" and t': "t' = t3\<lparr> runningStatus := 0 \<rparr>"
    and ev': "ev' = ev\<lparr> isMetaEvent := True, data1 := mt \<rparr>"
    using assms a b c by (auto simp add: readMetaEvent_def Let_def split: if_splits)
  have "same_ticks t t1" using same_ticks_readTrackByte_trk [of t f] a by simp
  moreover have "same_ticks t1 t2"
    using same_ticks_readTrackVariableLength_trk [of t1 f1] b by simp
  moreover have "same_ticks t2 t3" using readMetaPayload_ticks [of mt len f2 info t2 f3 i3 t3] c c' by simp
  ultimately have "same_ticks t t3" by (blast intro: same_ticks_trans)
  then show "same_ticks t t'" by (simp add: t' same_ticks_def)
  show "same_time ev ev'" by (simp add: ev' same_time_def)
qed

lemma readChannelEvent_ticks:
  assumes "readChannelEvent f info t ev = (ok, f', info', t', ev')"
  shows "same_ticks t t'" and "same_time ev ev'"
  using assms
  by (auto simp add: readChannelEvent_def same_ticks_def same_time_def case_prod_beta
      split: if_splits)

lemma readTrackEvent_trk_ticks:
  assumes "readTrackEvent_trk n f info t ev = (True, f', info', t', ev')"
  shows "absoluteTime ev' = currentTick t'"
    and "currentTick t' = currentTick t + deltaTime ev'"
    and "\<not> endOfTrack t'"
    and "nextEvent t' = nextEvent t" and "eventReady t' = eventReady t"
proof -
  from assms have ne: "\<not> endOfTrack t" and nf: "\<not> filePosition t \<ge> trackEndPos t"
    by (auto simp add: readTrackEvent_trk_def split: if_splits)
  obtain delta f1 t1 where a: "readTrackVariableLength_trk f t = (delta, f1, t1)"
    by (cases "readTrackVariableLength_trk f t")
  let ?t2 = "t1\<lparr> currentTick := currentTick t1 + delta \<rparr>"
  let ?e2 = "ev\<lparr> deltaTime := delta, absoluteTime := currentTick ?t2, trackNumber := n \<rparr>"
  obtain sb f3 t3 where b: "readTrackByte_trk f1 ?t2 = (sb, f3, t3)"
    by (cases "readTrackByte_trk f1 ?t2")
  let ?st = "if sb < 0x80 then runningStatus t3 else sb"
  let ?t4 = "if sb < 0x80
             then t3\<lparr> bufferPos := bufferPos t3 - 1, filePosition := filePosition t3 - 1 \<rparr>
             else t3\<lparr> runningStatus := sb \<rparr>"
  let ?e4 = "?e2\<lparr> type := ?st AND 0xF0, channel := ?st AND 0x0F, isMetaEvent := False,
                   sysexData := None, sysexLength := 0 \<rparr>"
  have s1: "same_ticks t t1" using same_ticks_readTrackVariableLength_trk [of t f] a by simp
  have s3: "same_ticks ?t2 t3" using same_ticks_readTrackByte_trk [of ?t2 f1] b by simp
  have s4: "same_ticks t3 ?t4" by (simp add: same_ticks_def)
  have r: "(if ?st = MIDI_SYSEX \<or> ?st = 0xF7 then readSysExEvent f3 info ?t4 ?e4
            else if ?st = MIDI_META_EVENT then readMetaEvent f3 info ?t4 ?e4
            else readChannelEvent f3 info ?t4 ?e4) = (True, f', info', t', ev')"
    using assms ne nf a b by (simp add: readTrackEvent_trk_def Let_def)
  have s5: "same_ticks ?t4 t' \<and> same_time ?e4 ev'"
    using r readSysExEvent_ticks readMetaEvent_ticks readChannelEvent_ticks
    by (metis (no_types, lifting))
  have ct: "currentTick t' = currentTick t + delta"
    using s1 s3 s4 s5 by (simp add: same_ticks_def split: if_splits)
  have dt: "deltaTime ev' = delta" and at: "absoluteTime ev' = currentTick t1 + delta"
    using s5 by (simp_all add: same_time_def)
  show "absoluteTime ev' = currentTick t'" using ct at s1 by (simp add: same_ticks_def)
  show "currentTick t' = currentTick t + deltaTime ev'" using ct dt by simp
  show "\<not> endOfTrack t'" using ne s1 s3 s4 s5 by (simp add: same_ticks_def split: if_splits)
  show "nextEvent t' = nextEvent t" using s1 s3 s4 s5 by (simp add: same_ticks_def split: if_splits)
  show "eventReady t' = eventReady t" using s1 s3 s4 s5 by (simp add: same_ticks_def split: if_splits)
qed

section \<open>Choosing the earliest track\<close>

lemma readMetaPayload_any:
  assumes "readMetaPayload metaType len f info t = (c, f', info', t')"
  shows "(c \<and> same_ticks t t')
       \<or> (\<not> c \<and> endOfTrack t' \<and> nextEvent t' = nextEvent t \<and> eventReady t' = eventReady t)"
  using assms
  by (auto simp add: readMetaPayload_def same_ticks_def case_prod_beta Let_def
      split: if_splits)

lemma readMetaEvent_any:
  assumes "readMetaEvent f info t ev = (ok, f', info', t', ev')"
  shows "(same_ticks t t'
          \<or> (endOfTrack t' \<and> nextEvent t' = nextEvent t \<and> eventReady t' = eventReady t))
         \<and> same_time ev ev'"
proof -
  obtain mt f1 t1 where a: "readTrackByte_trk f t = (mt, f1, t1)"
    by (cases "readTrackByte_trk f t")
  obtain len f2 t2 where b: "readTrackVariableLength_trk f1 t1 = (len, f2, t2)"
    by (cases "readTrackVariableLength_trk f1 t1")
  obtain c f3 i3 t3 where c: "readMetaPayload mt len f2 info t2 = (c, f3, i3, t3)"
    by (cases "readMetaPayload mt len f2 info t2")
  have t': "t' = (if c then t3\<lparr> runningStatus := 0 \<rparr> else t3)"
    and ev': "ev' = ev\<lparr> isMetaEvent := True, data1 := mt \<rparr>"
    using assms a b c by (auto simp add: readMetaEvent_def Let_def split: if_splits)
  have s1: "same_ticks t t1" using same_ticks_readTrackByte_trk [of t f] a by simp
  have s2: "same_ticks t1 t2"
    using same_ticks_readTrackVariableLength_trk [of t1 f1] b by simp
  have s3: "(c \<and> same_ticks t2 t3)
            \<or> (\<not> c \<and> endOfTrack t3 \<and> nextEvent t3 = nextEvent t2 \<and> eventReady t3 = eventReady t2)"
    using readMetaPayload_any [OF c] .
  have "same_ticks t t'
        \<or> (endOfTrack t' \<and> nextEvent t' = nextEvent t \<and> eventReady t' = eventReady t)"
    using s1 s2 s3 by (auto simp add: t' same_ticks_def)
  then show ?thesis by (simp add: ev' same_time_def)
qed

lemma readTrackEvent_trk_any:
  assumes "readTrackEvent_trk n f info t ev = (ok, f', info', t', ev')"
  shows "endOfTrack t' \<or> absoluteTime ev' = currentTick t'"
    and "nextEvent t' = nextEvent t" and "eventReady t' = eventReady t"
proof -
  have "(endOfTrack t' \<or> absoluteTime ev' = currentTick t')
        \<and> nextEvent t' = nextEvent t \<and> eventReady t' = eventReady t"
  proof (cases "endOfTrack t \<or> filePosition t \<ge> trackEndPos t")
    case True
    then show ?thesis
      using assms by (auto simp add: readTrackEvent_trk_def split: if_splits)
  next
    case False
    then have ne: "\<not> endOfTrack t" and nf: "\<not> filePosition t \<ge> trackEndPos t" by auto
    obtain delta f1 t1 where a: "readTrackVariableLength_trk f t = (delta, f1, t1)"
      by (cases "readTrackVariableLength_trk f t")
    let ?t2 = "t1\<lparr> currentTick := currentTick t1 + delta \<rparr>"
    let ?e2 = "ev\<lparr> deltaTime := delta, absoluteTime := currentTick ?t2, trackNumber := n \<rparr>"
    obtain sb f3 t3 where b: "readTrackByte_trk f1 ?t2 = (sb, f3, t3)"
      by (cases "readTrackByte_trk f1 ?t2")
    let ?st = "if sb < 0x80 then runningStatus t3 else sb"
    let ?t4 = "if sb < 0x80
               then t3\<lparr> bufferPos := bufferPos t3 - 1, filePosition := filePosition t3 - 1 \<rparr>
               else t3\<lparr> runningStatus := sb \<rparr>"
    let ?e4 = "?e2\<lparr> type := ?st AND 0xF0, channel := ?st AND 0x0F, isMetaEvent := False,
                     sysexData := None, sysexLength := 0 \<rparr>"
    have s1: "same_ticks t t1" using same_ticks_readTrackVariableLength_trk [of t f] a by simp
    have s3: "same_ticks ?t2 t3" using same_ticks_readTrackByte_trk [of ?t2 f1] b by simp
    have s4: "same_ticks t3 ?t4" by (simp add: same_ticks_def)
    have r: "(if ?st = MIDI_SYSEX \<or> ?st = 0xF7 then readSysExEvent f3 info ?t4 ?e4
              else if ?st = MIDI_META_EVENT then readMetaEvent f3 info ?t4 ?e4
              else readChannelEvent f3 info ?t4 ?e4) = (ok, f', info', t', ev')"
      using assms ne nf a b by (simp add: readTrackEvent_trk_def Let_def)
    have s5: "(same_ticks ?t4 t'
               \<or> (endOfTrack t' \<and> nextEvent t' = nextEvent ?t4 \<and> eventReady t' = eventReady ?t4))
              \<and> same_time ?e4 ev'"
      using r readSysExEvent_ticks readMetaEvent_any readChannelEvent_ticks
      by (metis (no_types, lifting))
    have at: "absoluteTime ev' = currentTick t1 + delta"
      using s5 by (simp_all add: same_time_def)
    have k: "nextEvent ?t4 = nextEvent t \<and> eventReady ?t4 = eventReady t
             \<and> currentTick ?t4 = currentTick t1 + delta"
      using s1 s3 by (simp add: same_ticks_def split: if_splits)
    show ?thesis
    proof (cases "same_ticks ?t4 t'")
      case True
      then show ?thesis using k at by (simp add: same_ticks_def)
    next
      case False
      then have "endOfTrack t' \<and> nextEvent t' = nextEvent ?t4 \<and> eventReady t' = eventReady ?t4"
        using s5 by blast
      then show ?thesis using k by simp
    qed
  qed
  then show "endOfTrack t' \<or> absoluteTime ev' = currentTick t'"
    and "nextEvent t' = nextEvent t" and "eventReady t' = eventReady t" by auto
qed

lemma unat_of_nat_8: "k < 256 \<Longrightarrow> unat (word_of_nat k :: uint8_t) = k"
  by (simp add: unat_of_nat)

lemma earliestStep_of_nat:
  assumes "k < 256"
  shows "earliestStep p (word_of_nat k) acc =
           (if live (tracks p ! k) \<and> nextTime p k < snd acc then (word_of_nat k, nextTime p k)
            else acc)"
  using assms by (simp add: earliestStep_def Let_def unat_of_nat_8 live_def nextTime_def)

lemma earliest_upto_Suc:
  assumes "k < 256"
  shows "earliest_upto p (Suc k) =
           (if live (tracks p ! k) \<and> nextTime p k < snd (earliest_upto p k)
            then (word_of_nat k, nextTime p k) else earliest_upto p k)"
  by (simp add: earliest_upto_def earliestStep_of_nat [OF assms])

lemma earliest_upto_cases:
  assumes "k \<le> 255"
  shows "((\<forall>i<k. \<not> candidate p i) \<and> earliest_upto p k = (0xFF, 0xFFFFFFFF))
       \<or> (\<exists>i. earliest_among p k i \<and> earliest_upto p k = (word_of_nat i, nextTime p i))"
  using assms
proof (induction k)
  case 0
  then show ?case by (simp add: earliest_upto_def)
next
  case (Suc k)
  have k: "k < 256" using Suc.prems by simp
  note step = earliest_upto_Suc [OF k, of p]
  from Suc.IH Suc.prems consider
    (none) "\<forall>i<k. \<not> candidate p i" "earliest_upto p k = (0xFF, 0xFFFFFFFF)"
    | (some) i where "earliest_among p k i" "earliest_upto p k = (word_of_nat i, nextTime p i)"
    by auto
  then show ?case
  proof cases
    case none
    show ?thesis
    proof (cases "candidate p k")
      case True
      then have "earliest_upto p (Suc k) = (word_of_nat k, nextTime p k)"
        unfolding step using none(2) by (simp add: candidate_def)
      moreover have "earliest_among p (Suc k) k"
        using True none(1) by (auto simp add: earliest_among_def less_Suc_eq)
      ultimately show ?thesis by blast
    next
      case False
      then have "earliest_upto p (Suc k) = (0xFF, 0xFFFFFFFF)"
        unfolding step using none(2) by (auto simp add: candidate_def)
      moreover have "\<forall>i<Suc k. \<not> candidate p i"
        using False none(1) by (simp add: less_Suc_eq)
      ultimately show ?thesis by blast
    qed
  next
    case some
    note i = some(1) [unfolded earliest_among_def]
    show ?thesis
    proof (cases "live (tracks p ! k) \<and> nextTime p k < nextTime p i")
      case True
      then have ck: "candidate p k" using i by (auto simp add: candidate_def)
      have "earliest_upto p (Suc k) = (word_of_nat k, nextTime p k)"
        unfolding step using True some(2) by simp
      moreover have "earliest_among p (Suc k) k"
        using i True ck by (auto simp add: earliest_among_def less_Suc_eq)
      ultimately show ?thesis by blast
    next
      case False
      have "earliest_upto p (Suc k) = (word_of_nat i, nextTime p i)"
        unfolding step using False some(2) by auto
      moreover have "candidate p k \<Longrightarrow> nextTime p i \<le> nextTime p k"
        using False by (auto simp add: candidate_def)
      then have "earliest_among p (Suc k) i"
        using i by (auto simp add: earliest_among_def less_Suc_eq)
      ultimately show ?thesis by blast
    qed
  qed
qed

lemma findEarliest_cases:
  "(candidateTracks p = [] \<and> findEarliest p = (0xFF, 0xFFFFFFFF))
   \<or> (\<exists>i. earliestOf p i \<and> findEarliest p = (word_of_nat i, nextTime p i))"
proof -
  let ?n = "unat (numTracks p)"
  have n: "?n \<le> 255" using unsigned_less [of "numTracks p", where 'a = nat] by simp
  have fe: "findEarliest p = earliest_upto p ?n"
    by (simp add: findEarliest_def trackIndices_def earliest_upto_def)
  have a: "(\<forall>i<?n. \<not> candidate p i) \<Longrightarrow> candidateTracks p = []"
    by (auto simp add: candidateTracks_def filter_empty_conv)
  have b: "earliest_among p ?n i \<Longrightarrow> earliestOf p i" for i
    by (auto simp add: earliestOf_def earliest_among_def candidateTracks_def)
  show ?thesis
    using earliest_upto_cases [OF n, of p] a b unfolding fe by blast
qed

section \<open>The merged event stream\<close>

lemma track_ok_cases:
  "endOfTrack t \<or> absoluteTime (nextEvent t) = currentTick t \<Longrightarrow> track_ok t"
  by (auto simp add: track_ok_def live_def)

lemma readTrackEvent_effect:
  assumes "readTrackEvent i p = (ok, p1)"
  shows "numTracks p1 = numTracks p \<and> allTracksEnded p1 = allTracksEnded p
       \<and> (\<exists>T. tracks p1 = (tracks p)[unat i := T]
             \<and> (track_ok (tracks p ! unat i) \<longrightarrow> track_ok T)
             \<and> (ok \<longrightarrow> \<not> endOfTrack T \<and> absoluteTime (nextEvent T) = currentTick T
                    \<and> currentTick T = currentTick (tracks p ! unat i) + deltaTime (nextEvent T)))"
proof (cases "i \<ge> numTracks p \<or> midiFile p = None")
  case True
  then have "ok = False" and "p1 = p"
    using assms by (auto simp add: readTrackEvent_def split: option.splits)
  then show ?thesis
    by (auto intro!: exI [of _ "tracks p ! unat i"])
next
  case False
  then obtain f where f: "midiFile p = Some f" and i: "\<not> i \<ge> numTracks p" by auto
  let ?t = "tracks p ! unat i"
  obtain ok' f' info' t' e' where
    r: "readTrackEvent_trk i f (fileInfo p) ?t (nextEvent ?t) = (ok', f', info', t', e')"
    by (cases "readTrackEvent_trk i f (fileInfo p) ?t (nextEvent ?t)") auto
  have ok: "ok = ok'"
    and p1: "p1 = p\<lparr> midiFile := Some f', fileInfo := info',
                       tracks := (tracks p)[unat i := t'\<lparr> nextEvent := e' \<rparr>] \<rparr>"
    using assms f i r by (auto simp add: readTrackEvent_def Let_def)
  let ?T = "t'\<lparr> nextEvent := e' \<rparr>"
  have a: "endOfTrack t' \<or> absoluteTime e' = currentTick t'"
    using readTrackEvent_trk_any(1) [OF r] .
  then have tk: "track_ok ?T" by (intro track_ok_cases) simp
  have b: "\<not> endOfTrack ?T \<and> absoluteTime (nextEvent ?T) = currentTick ?T
              \<and> currentTick ?T = currentTick ?t + deltaTime (nextEvent ?T)" if "ok"
  proof -
    from that ok r have "readTrackEvent_trk i f (fileInfo p) ?t (nextEvent ?t)
                          = (True, f', info', t', e')" by simp
    from readTrackEvent_trk_ticks(1-3) [OF this] show ?thesis by simp
  qed
  show ?thesis
    using tk b by (auto simp add: p1 intro!: exI [of _ ?T])
qed

lemma earliestOf_index:
  assumes "earliestOf p i"
  shows "i < unat (numTracks p)" and "unat (word_of_nat i :: uint8_t) = i"
    and "(word_of_nat i :: uint8_t) \<noteq> 0xFF" and "live (tracks p ! i)"
    and "nextTime p i < 0xFFFFFFFF"
proof -
  show i: "i < unat (numTracks p)" and "live (tracks p ! i)" and "nextTime p i < 0xFFFFFFFF"
    using assms by (auto simp add: earliestOf_def candidateTracks_def candidate_def)
  have n: "unat (numTracks p) \<le> 255"
    using unsigned_less [of "numTracks p", where 'a = nat] by simp
  then show u: "unat (word_of_nat i :: uint8_t) = i" using i by (simp add: unat_of_nat)
  show "(word_of_nat i :: uint8_t) \<noteq> 0xFF"
  proof
    assume "(word_of_nat i :: uint8_t) = 0xFF"
    then have "unat (word_of_nat i :: uint8_t) = 255" by simp
    with u i n show False by simp
  qed
qed

lemma readNextEvent_cases:
  "(allTracksEnded p \<and> readNextEvent e p = (False, e, p))
   \<or> (\<not> allTracksEnded p \<and> candidateTracks p = []
       \<and> readNextEvent e p = (False, e, p\<lparr> allTracksEnded := True \<rparr>))
   \<or> (\<not> allTracksEnded p
       \<and> (\<exists>i. earliestOf p i
             \<and> readNextEvent e p
                 = (True, MidiEvent_assign (nextEvent (tracks p ! i)), refill i p)))"
proof (cases "allTracksEnded p")
  case True
  then show ?thesis by (simp add: readNextEvent_def)
next
  case False
  from findEarliest_cases [of p] show ?thesis
  proof
    assume "candidateTracks p = [] \<and> findEarliest p = (0xFF, 0xFFFFFFFF)"
    then show ?thesis using False by (simp add: readNextEvent_def Let_def)
  next
    assume "\<exists>i. earliestOf p i \<and> findEarliest p = (word_of_nat i, nextTime p i)"
    then obtain i where i: "earliestOf p i"
      and fe: "findEarliest p = (word_of_nat i, nextTime p i)" by blast
    note I = earliestOf_index [OF i]
    have "readNextEvent e p = (True, MidiEvent_assign (nextEvent (tracks p ! i)), refill i p)"
      using False fe I(2,3)
      by (simp add: readNextEvent_def Let_def refill_def case_prod_beta)
    then show ?thesis using False i by blast
  qed
qed

lemma word_add_wrap_cases:
  fixes a d :: uint32_t
  shows "a \<le> a + d \<or> a + d < d"
proof -
  have "unat a < 2 ^ 32" "unat d < 2 ^ 32"
    using unsigned_less [of a, where 'a = nat] unsigned_less [of d, where 'a = nat] by simp_all
  then show ?thesis
    by (auto simp add: word_le_nat_alt word_less_nat_alt unat_plus_if')
qed

lemma refill_effect:
  assumes "unat (word_of_nat i :: uint8_t) = i"
  shows "numTracks (refill i p) = numTracks p \<and> allTracksEnded (refill i p) = allTracksEnded p
       \<and> (\<exists>T. tracks (refill i p) = (tracks p)[i := T]
             \<and> (live T \<longrightarrow> absoluteTime (nextEvent T) = currentTick T
                    \<and> currentTick T = currentTick (tracks p ! i) + deltaTime (nextEvent T)))"
proof -
  obtain ok p1 where r: "readTrackEvent (word_of_nat i) p = (ok, p1)"
    by (cases "readTrackEvent (word_of_nat i) p")
  from readTrackEvent_effect [OF r] assms obtain T0 where
    n: "numTracks p1 = numTracks p" "allTracksEnded p1 = allTracksEnded p"
    and t: "tracks p1 = (tracks p)[i := T0]"
    and k: "ok \<longrightarrow> \<not> endOfTrack T0 \<and> absoluteTime (nextEvent T0) = currentTick T0
                    \<and> currentTick T0 = currentTick (tracks p ! i) + deltaTime (nextEvent T0)"
    by auto
  have rf: "refill i p = p1\<lparr> tracks := (tracks p1)[i := (tracks p1 ! i)\<lparr> eventReady := ok \<rparr>] \<rparr>"
    using r by (simp add: refill_def)
  show ?thesis
  proof (cases "i < length (tracks p)")
    case True
    then have "tracks (refill i p) = (tracks p)[i := T0\<lparr> eventReady := ok \<rparr>]"
      by (simp add: rf t)
    moreover have "live (T0\<lparr> eventReady := ok \<rparr>) \<longrightarrow>
        absoluteTime (nextEvent (T0\<lparr> eventReady := ok \<rparr>)) = currentTick (T0\<lparr> eventReady := ok \<rparr>)
      \<and> currentTick (T0\<lparr> eventReady := ok \<rparr>)
          = currentTick (tracks p ! i) + deltaTime (nextEvent (T0\<lparr> eventReady := ok \<rparr>))"
      using k by (simp add: live_def)
    ultimately show ?thesis using n by (auto simp add: rf)
  next
    case False
    then have "tracks (refill i p) = (tracks p)[i := TrackState_zero]"
      by (simp add: rf t list_update_beyond)
    moreover have "\<not> live TrackState_zero" by (simp add: live_def TrackState_zero_def)
    ultimately show ?thesis using n by (auto simp add: rf)
  qed
qed

lemma streamInv_update:
  assumes "streamInv p" and "tracks p' = (tracks p)[i := T]" and "track_ok T"
    and "numTracks p' = numTracks p"
  shows "streamInv p'"
proof -
  have "set ((tracks p)[i := T]) \<subseteq> insert T (set (tracks p))"
    by (rule set_update_subset_insert)
  then show ?thesis
    using assms by (auto simp add: streamInv_def)
qed

lemma streamInv_refill:
  assumes "streamInv p" and "unat (word_of_nat i :: uint8_t) = i"
  shows "streamInv (refill i p)"
proof -
  from refill_effect [OF assms(2), of p] obtain T where
    n: "numTracks (refill i p) = numTracks p"
    and t: "tracks (refill i p) = (tracks p)[i := T]"
    and k: "live T \<longrightarrow> absoluteTime (nextEvent T) = currentTick T"
    by auto
  have "track_ok T" using k by (simp add: track_ok_def)
  from streamInv_update [OF assms(1) t this n] show ?thesis .
qed

lemma streamInv_allTracksEnded [simp]:
  "streamInv (p\<lparr> allTracksEnded := b \<rparr>) = streamInv p"
  by (simp add: streamInv_def)

lemma streamInv_readNextEvent:
  assumes "streamInv p"
  shows "streamInv (snd (snd (readNextEvent e p)))"
  using readNextEvent_cases [of p e] assms
  by (auto simp add: streamInv_refill earliestOf_index(2))

section \<open>Tempo meta events\<close>






section \<open>Opening a file\<close>

lemma read8_at:
  assumes "midiFile p = Some f" and "length (contents f) < 2 ^ 32"
    and "unat (curPosition f) \<le> length (contents f)"
  obtains f' where "read8 p = (byteAt f (unat (curPosition f)), p\<lparr> midiFile := Some f' \<rparr>)"
    and "contents f' = contents f"
    and "unat (curPosition f') = min (Suc (unat (curPosition f))) (length (contents f))"
proof -
  have sz: "unat (fileSize f) = length (contents f)"
    using assms(2) by (simp add: fileSize_def unat_of_nat)
  show ?thesis
  proof (cases "available f")
    case False
    then have eq: "unat (curPosition f) = length (contents f)"
      using assms(3) sz by (simp add: available_def word_less_nat_alt)
    have "read8 p = (byteAt f (unat (curPosition f)), p\<lparr> midiFile := Some f \<rparr>)"
      using False assms(1) eq by (simp add: read8_def byteAt_def)
    then show ?thesis using that [of f] eq by simp
  next
    case True
    then have lt: "unat (curPosition f) < length (contents f)"
      using sz by (simp add: available_def word_less_nat_alt)
    obtain bs f' where rd: "FatFile_read 1 f = (bs, f')" by (cases "FatFile_read 1 f")
    have "length bs = 1" using FatFile_read_1(1) [OF True] rd by simp
    moreover have "bs = take 1 (drop (unat (curPosition f)) (contents f))"
      using rd lt sz by (auto simp add: FatFile_read_def Let_def min_def)
    ultimately have b: "bs = [contents f ! unat (curPosition f)]"
      using lt by (simp add: take_Suc_conv_app_nth hd_drop_conv_nth take_Suc)
    have r: "read8 p = (byteAt f (unat (curPosition f)), p\<lparr> midiFile := Some f' \<rparr>)"
      using True assms(1) b lt rd by (simp add: read8_def byteAt_def)
    have c: "contents f' = contents f" using rd by (auto simp add: FatFile_read_def Let_def)
    have "unat (curPosition f') = unat (curPosition f) + 1"
      using FatFile_read_1(3) [OF True] rd by simp
    then have "unat (curPosition f') = min (Suc (unat (curPosition f))) (length (contents f))"
      using lt by simp
    then show ?thesis using that [of f'] r c by simp
  qed
qed

lemma be32_is_6:
  fixes b0 b1 b2 b3 :: uint8_t
  assumes "(push_bit 24 (ucast b0) OR push_bit 16 (ucast b1) OR push_bit 8 (ucast b2)
               OR ucast b3 :: uint32_t) = 6"
  shows "b0 = 0 \<and> b1 = 0 \<and> b2 = 0 \<and> b3 = 6"
proof -
  let ?W = "push_bit 24 (ucast b0) OR push_bit 16 (ucast b1) OR push_bit 8 (ucast b2)
               OR ucast b3 :: uint32_t"
  have e3: "(ucast ?W :: uint8_t) = b3"
    by (rule bit_word_eqI) (auto simp add: bit_ucast_iff bit_or_iff bit_push_bit_iff)
  have e2: "(ucast (drop_bit 8 ?W) :: uint8_t) = b2"
    by (rule bit_word_eqI)
      (auto simp add: bit_ucast_iff bit_or_iff bit_push_bit_iff bit_drop_bit_eq
        dest: bit_imp_le_length)
  have e1: "(ucast (drop_bit 16 ?W) :: uint8_t) = b1"
    by (rule bit_word_eqI)
      (auto simp add: bit_ucast_iff bit_or_iff bit_push_bit_iff bit_drop_bit_eq
        dest: bit_imp_le_length)
  have e0: "(ucast (drop_bit 24 ?W) :: uint8_t) = b0"
    by (rule bit_word_eqI)
      (auto simp add: bit_ucast_iff bit_or_iff bit_push_bit_iff bit_drop_bit_eq
        dest: bit_imp_le_length)
  have "b3 = 6" using e3 unfolding assms by simp
  moreover have "b2 = 0" using e2 unfolding assms by (simp add: drop_bit_eq_div)
  moreover have "b1 = 0" using e1 unfolding assms by (simp add: drop_bit_eq_div)
  moreover have "b0 = 0" using e0 unfolding assms by (simp add: drop_bit_eq_div)
  ultimately show ?thesis by simp
qed

lemma read32_at:
  assumes "midiFile p = Some f" and "length (contents f) < 2 ^ 32"
    and "unat (curPosition f) = k" and "k \<le> length (contents f)"
  shows "fst (read32 p)
         = (push_bit 24 (ucast (byteAt f k)) OR push_bit 16 (ucast (byteAt f (k + 1)))
            OR push_bit 8 (ucast (byteAt f (k + 2))) OR ucast (byteAt f (k + 3)))"
proof -
  let ?n = "length (contents f)"
  have past: "byteAt f (min i ?n) = byteAt f i" for i
    by (simp add: byteAt_def min_def)
  have same: "byteAt g i = byteAt f i" if "contents g = contents f" for g i
    using that by (simp add: byteAt_def)
  obtain f0 where r0: "read8 p = (byteAt f k, p\<lparr> midiFile := Some f0 \<rparr>)"
    and c0: "contents f0 = contents f" and k0: "unat (curPosition f0) = min (Suc k) ?n"
    using read8_at [OF assms(1,2)] assms(3,4) by metis
  let ?p0 = "p\<lparr> midiFile := Some f0 \<rparr>"
  have m0: "midiFile ?p0 = Some f0" by simp
  obtain f1 where r1: "read8 ?p0 = (byteAt f0 (min (Suc k) ?n), ?p0\<lparr> midiFile := Some f1 \<rparr>)"
    and c1: "contents f1 = contents f" and k1: "unat (curPosition f1) = min (Suc (min (Suc k) ?n)) ?n"
    using read8_at [OF m0] assms(2) c0 k0 by (metis min.cobounded2)
  let ?p1 = "?p0\<lparr> midiFile := Some f1 \<rparr>"
  have m1: "midiFile ?p1 = Some f1" by simp
  obtain f2 where r2: "read8 ?p1 = (byteAt f1 (min (Suc (min (Suc k) ?n)) ?n), ?p1\<lparr> midiFile := Some f2 \<rparr>)"
    and c2: "contents f2 = contents f"
    and k2: "unat (curPosition f2) = min (Suc (min (Suc (min (Suc k) ?n)) ?n)) ?n"
    using read8_at [OF m1] assms(2) c1 k1 by (metis min.cobounded2)
  let ?p2 = "?p1\<lparr> midiFile := Some f2 \<rparr>"
  have m2: "midiFile ?p2 = Some f2" by simp
  obtain f3 where r3: "read8 ?p2 = (byteAt f2 (min (Suc (min (Suc (min (Suc k) ?n)) ?n)) ?n), ?p2\<lparr> midiFile := Some f3 \<rparr>)"
    using read8_at [OF m2] assms(2) c2 k2 by (metis min.cobounded2)
  have b1: "byteAt f0 (min (Suc k) ?n) = byteAt f (k + 1)"
    using same [OF c0] past [of "Suc k"] by simp
  have b2: "byteAt f1 (min (Suc (min (Suc k) ?n)) ?n) = byteAt f (k + 2)"
    unfolding same [OF c1] by (simp add: byteAt_def min_def)
  have b3: "byteAt f2 (min (Suc (min (Suc (min (Suc k) ?n)) ?n)) ?n) = byteAt f (k + 3)"
    unfolding same [OF c2] by (simp add: byteAt_def min_def eval_nat_numeral)
  show ?thesis
    unfolding read32_def r0 using r1 r2 r3 b1 b2 b3 by simp
qed

lemma readMidiHeader_ok:
  assumes "midiFile p = Some f" and "fst (readMidiHeader p)"
  shows "fst (readHeader4 p) = tag_MThd" and "fst (read32 (snd (readHeader4 p))) = 6"
  using assms
  by (auto simp add: readMidiHeader_def Let_def split: prod.splits if_splits)

lemma open_ok_header:
  assumes "fst (MidiFileParser_open file p)"
  shows "fst (readMidiHeader (p\<lparr> midiFile := file, allTracksEnded := False,
                  fileInfo := (fileInfo p)\<lparr> tempo := 500000, numerator := 4, denominator := 4,
                                             trackName := replicate 64 0 \<rparr> \<rparr>))"
  using assms
  by (auto simp add: MidiFileParser_open_def Let_def split: prod.splits if_splits)

lemma header_bytes:
  assumes "midiFile p = Some f" and "curPosition f = 0" and "length (contents f) < 2 ^ 32"
    and "fst (readMidiHeader p)"
  shows "take 4 (contents f) = tag_MThd" and "take 4 (drop 4 (contents f)) = [0, 0, 0, 6]"
proof -
  let ?n = "length (contents f)"
  let ?k = "min 4 ?n"
  let ?f' = "f\<lparr> curPosition := word_of_nat ?k \<rparr>"
  have sz: "unat (fileSize f) = ?n"
    using assms(3) by (simp add: fileSize_def unat_of_nat)
  have rt: "readHeaderTag p f = (take 4 (take ?k (contents f) @ drop ?k (headerStack p)), ?f')"
    using assms(2) sz by (simp add: readHeaderTag_def FatFile_read_def Let_def min.commute)
  then have rh: "readHeader4 p = (take 4 (take ?k (contents f) @ drop ?k (headerStack p)),
                                  p\<lparr> midiFile := Some ?f' \<rparr>)"
    using assms(1) by (simp add: readHeader4_def)
  note ok = readMidiHeader_ok [OF assms(1,4)]
  have hd: "take 4 (take ?k (contents f) @ drop ?k (headerStack p)) = tag_MThd"
    using ok(1) rh by simp
  have k: "unat (curPosition ?f') = ?k"
    by (simp add: unat_of_nat min_def)
  have "fst (read32 (p\<lparr> midiFile := Some ?f' \<rparr>)) = 6" using ok(2) rh by simp
  moreover have "fst (read32 (p\<lparr> midiFile := Some ?f' \<rparr>))
         = (push_bit 24 (ucast (byteAt ?f' ?k)) OR push_bit 16 (ucast (byteAt ?f' (?k + 1)))
            OR push_bit 8 (ucast (byteAt ?f' (?k + 2))) OR ucast (byteAt ?f' (?k + 3)))"
    by (rule read32_at [OF _ _ k]) (use assms(3) in simp_all)
  ultimately have b: "byteAt ?f' ?k = 0 \<and> byteAt ?f' (?k + 1) = 0 \<and> byteAt ?f' (?k + 2) = 0
                      \<and> byteAt ?f' (?k + 3) = 6"
    using be32_is_6 by metis
  then have "?k + 3 < ?n" by (auto simp add: byteAt_def split: if_splits)
  then have n8: "8 \<le> ?n" and k4: "?k = 4" by (simp_all add: min_def split: if_splits)
  have c: "contents f ! 4 = 0" "contents f ! 5 = 0" "contents f ! 6 = 0" "contents f ! 7 = 6"
    using b n8 unfolding k4 by (simp_all add: byteAt_def)
  show "take 4 (contents f) = tag_MThd" using hd n8 unfolding k4 by simp
  show "take 4 (drop 4 (contents f)) = [0, 0, 0, 6]"
    using n8 c by (intro nth_equalityI) (auto simp add: less_Suc_eq eval_nat_numeral)
qed

text \<open>
  C4. \<open>open\<close> refuses a file whose first four bytes are not \<open>"MThd"\<close> or whose second four
  bytes are not the length 6, and it refuses a null handle. A file too short to hold the
  eight bytes is among those refused.
\<close>

theorem open_checks_header:
  assumes "curPosition f = 0" and "length (contents f) < 2 ^ 32"
    and "take 4 (contents f) \<noteq> tag_MThd \<or> take 4 (drop 4 (contents f)) \<noteq> [0, 0, 0, 6]"
  shows "\<not> fst (MidiFileParser_open (Some f) p) \<and> \<not> fst (MidiFileParser_open None p)"
proof -
  have "\<not> fst (MidiFileParser_open (Some f) p)"
  proof
    assume "fst (MidiFileParser_open (Some f) p)"
    from header_bytes [OF _ assms(1,2) open_ok_header [OF this]] assms(3)
    show False by simp
  qed
  moreover have "\<not> fst (MidiFileParser_open None p)"
    by (simp add: MidiFileParser_open_def readMidiHeader_def Let_def)
  ultimately show ?thesis by simp
qed

theorem open_checks_header_witness:
  "\<not> fst (MidiFileParser_open (Some file_riff) (MidiFileParser_new []))"
proof -
  have h1: "curPosition file_riff = 0" by (simp add: file_riff_def)
  have h2: "length (contents file_riff) < 2 ^ 32" by (simp add: file_riff_def)
  have h3: "take 4 (contents file_riff) \<noteq> tag_MThd
            \<or> take 4 (drop 4 (contents file_riff)) \<noteq> [0, 0, 0, 6]"
    by (simp add: file_riff_def tag_MThd_def)
  from open_checks_header [OF h1 h2 h3] show ?thesis by simp
qed

text \<open>
  C4 as stated fails for the format: \<open>readMidiHeader\<close> stores the format word without
  looking at it. A well-formed file that declares format 2, with one track and 96 ticks per
  quarter note, is opened, and its track is set up for playback.
\<close>

theorem format2_counterexample:
  "opened file_format2 = (True, 2, 96, 1)"
  by code_simp

text \<open>The division word is stored without a look as well: the same file with division 0.\<close>

lemma division0_opened:
  "opened file_division0 = (True, 1, 0, 1)"
  by code_simp

section \<open>Variable-length quantities\<close>

lemma readTrackByte_trk_buffered:
  assumes "bufferPos t < bufferSize t"
  shows "readTrackByte_trk f t
         = (buffer t ! unat (bufferPos t), f,
            t\<lparr> bufferPos := bufferPos t + 1, filePosition := filePosition t + 1 \<rparr>)"
  using assms by (simp add: readTrackByte_trk_def not_le [symmetric])

lemma take_drop_Cons:
  assumes "take (Suc n) (drop k xs) = y # ys"
  shows "k < length xs" and "xs ! k = y" and "take n (drop (Suc k) xs) = ys"
proof -
  show k: "k < length xs"
  proof (rule ccontr)
    assume "\<not> k < length xs"
    then have "drop k xs = []" by simp
    with assms show False by simp
  qed
  then have "drop k xs = xs ! k # drop (Suc k) xs" by (simp add: Cons_nth_drop_Suc)
  with assms show "xs ! k = y" and "take n (drop (Suc k) xs) = ys" by simp_all
qed

lemma vlq_loop_buffered:
  assumes "unat (bufferPos t) + length cs + 1 \<le> unat (bufferSize t)"
    and "take (length cs + 1) (drop (unat (bufferPos t)) (buffer t)) = cs @ [b]"
    and "\<forall>c \<in> set cs. c AND 0x80 \<noteq> 0" and "b AND 0x80 = 0"
  shows "readTrackVariableLength_loop v f t
         = (foldl vlqStep v (cs @ [b]), f,
            t\<lparr> bufferPos := bufferPos t + word_of_nat (length cs + 1),
               filePosition := filePosition t + word_of_nat (length cs + 1) \<rparr>)"
  using assms
proof (induction cs arbitrary: v t)
  case Nil
  have lt: "bufferPos t < bufferSize t"
    using Nil.prems(1) by (simp add: word_less_nat_alt)
  have b: "buffer t ! unat (bufferPos t) = b"
    using take_drop_Cons(2) [of 0 "unat (bufferPos t)" "buffer t" b "[]"] Nil.prems(2) by simp
  show ?case
    by (subst readTrackVariableLength_loop.simps)
      (simp add: readTrackByte_trk_buffered [OF lt] b Nil.prems(4) vlqStep_def Let_def)
next
  case (Cons c cs)
  have lt: "bufferPos t < bufferSize t"
    using Cons.prems(1) by (simp add: word_less_nat_alt)
  have td: "take (Suc (length cs + 1)) (drop (unat (bufferPos t)) (buffer t)) = c # (cs @ [b])"
    using Cons.prems(2) by simp
  note T = take_drop_Cons [OF td]
  let ?t = "t\<lparr> bufferPos := bufferPos t + 1, filePosition := filePosition t + 1 \<rparr>"
  have "unat (bufferPos t) + 1 < 2 ^ 16"
    using Cons.prems(1) unsigned_less [of "bufferSize t", where 'a = nat] by simp
  then have up: "unat (bufferPos ?t) = unat (bufferPos t) + 1"
    by (simp add: unat_word_ariths)
  have p1: "unat (bufferPos ?t) + length cs + 1 \<le> unat (bufferSize ?t)"
    using Cons.prems(1) up by simp
  have p2: "take (length cs + 1) (drop (unat (bufferPos ?t)) (buffer ?t)) = cs @ [b]"
    using T(3) up by simp
  have p3: "\<forall>c \<in> set cs. c AND 0x80 \<noteq> 0" using Cons.prems(3) by simp
  have cc: "c AND 0x80 \<noteq> 0" using Cons.prems(3) by simp
  note IH = Cons.IH [OF p1 p2 p3 Cons.prems(4), of "vlqStep v c"]
  show ?case
    by (subst readTrackVariableLength_loop.simps)
      (simp add: readTrackByte_trk_buffered [OF lt] T(2) cc Let_def IH vlqStep_def [symmetric]
        add.assoc)
qed

text \<open>
  C7. A variable-length quantity is read to its last byte whatever its length: when the
  buffer of the track holds \<open>n\<close> bytes with the continuation bit followed by one without,
  for any \<open>n\<close>, \<open>readTrackVariableLength\<close> consumes all \<open>n + 1\<close> bytes, returns the value
  accumulated in 32 bits, and changes nothing else of the track; in particular the track
  is not ended.
\<close>

theorem readTrackVariableLength_unbounded:
  assumes "unat (bufferPos t) + length cs + 1 \<le> unat (bufferSize t)"
    and "take (length cs + 1) (drop (unat (bufferPos t)) (buffer t)) = cs @ [b]"
    and "\<forall>c \<in> set cs. c AND 0x80 \<noteq> 0" and "b AND 0x80 = 0"
  shows "readTrackVariableLength_trk f t
         = (vlqValue (cs @ [b]), f,
            t\<lparr> bufferPos := bufferPos t + word_of_nat (length cs + 1),
               filePosition := filePosition t + word_of_nat (length cs + 1) \<rparr>)"
  unfolding readTrackVariableLength_trk_def vlqValue_def
  by (rule vlq_loop_buffered [OF assms])

theorem readTrackVariableLength_unbounded_witness:
  "readTrackVariableLength_trk file_none (track_with [0x81, 0x80, 0x80, 0x80, 0x80, 0x05, 0x90])
     = (5, file_none, after_bytes 6 [0x81, 0x80, 0x80, 0x80, 0x80, 0x05, 0x90])
   \<and> \<not> endOfTrack (after_bytes 6 [0x81, 0x80, 0x80, 0x80, 0x80, 0x05, 0x90])"
proof -
  let ?bs = "[0x81, 0x80, 0x80, 0x80, 0x80, 0x05, 0x90] :: uint8_t list"
  let ?cs = "[0x81, 0x80, 0x80, 0x80, 0x80] :: uint8_t list"
  let ?t = "track_with ?bs"
  have h1: "unat (bufferPos ?t) + length ?cs + 1 \<le> unat (bufferSize ?t)"
    by (simp add: track_with_def TrackState_zero_def)
  have h2: "take (length ?cs + 1) (drop (unat (bufferPos ?t)) (buffer ?t)) = ?cs @ [0x05]"
    by (simp add: track_with_def TrackState_zero_def)
  have h3: "\<forall>c \<in> set ?cs. c AND 0x80 \<noteq> 0" by simp
  have h4: "(0x05 :: uint8_t) AND 0x80 = 0" by simp
  have v: "vlqValue (?cs @ [0x05]) = 5" by (simp add: vlqValue_def vlqStep_def)
  have e: "\<not> endOfTrack (after_bytes 6 ?bs)"
    by (simp add: after_bytes_def track_with_def TrackState_zero_def)
  have p: "bufferPos ?t = 0" "filePosition ?t = 0"
    by (simp_all add: track_with_def TrackState_zero_def)
  from readTrackVariableLength_unbounded [OF h1 h2 h3 h4, of file_none] v e
  show ?thesis by (simp add: after_bytes_def p)
qed

text \<open>
  C7 as stated fails: the delta time of the first event of \<open>file_longVlq\<close> takes six bytes,
  and \<open>open\<close> reads it as one quantity (the value wraps to 0), reads the NoteOn behind it
  and leaves the track ready and not ended, nine bytes into its data; the stream then
  delivers the NoteOn, the NoteOff and ends with the track.
\<close>

theorem long_vlq_counterexample:
  "firstTrackAfterOpen file_longVlq = (True, False, True, 9, 0, 0x90, 0x3C)
   \<and> eventsOf 5 file_longVlq = [(0, 0x90, 0x3C), (96, 0x80, 0x3C)]"
  by code_simp

end
